theory Spec2Isabelle
  imports Main "HOL-Library.AList"
begin

section \<open>Data of jenkins-report.py\<close>

text \<open>
  A \<open>datetime\<close> is a point on the naive local time line, counted in microseconds.
  The program only subtracts a \<open>timedelta\<close> from it and compares two of them.
\<close>

type_synonym datetime = int

text \<open>
  Every exception that can leave a function of the program. None of them is caught
  anywhere in the program, so each one ends the run.
\<close>

datatype error =
    JobNotFound string
  | BuildNotFound string int
  | LogFetchError string int
  | FileNotFoundError
  | YAMLError
  | RegexError string
  | KeyError string

text \<open>
  The dict returned by the server for one build. The server reports \<open>timestamp\<close> in
  milliseconds since the epoch; \<open>get_build_info\<close> overwrites the field with a datetime.
\<close>

record build_info =
  timestamp :: int
  result :: string
  url :: string
  displayName :: "string option"

text \<open>
  One entry of causes.yaml: the optional list \<open>re\<close>, the optional list \<open>text\<close> and the
  optional dict \<open>bug_data\<close> with its optional \<open>url\<close>. The cause dict is kept as an
  association list in the order of the file.
\<close>

record cause_data =
  cause_re :: "string list option"
  cause_text :: "string list option"
  bug_data :: "string option option"

type_synonym causes = "(string \<times> cause_data) list"

text \<open>What opening and parsing causes.yaml gives.\<close>

datatype causes_source = Missing | Unparsable | Parsed causes

datatype re_flag = DOTALL

text \<open>The calls that leave the process, in the order they are made.\<close>

datatype event =
    GetJobInfo string
  | GetBuildInfo string int
  | GetConsoleOutput string int
  | OpenCausesFile

text \<open>
  What the program reads from outside: the clock, the Jenkins server, the file causes.yaml
  and the library function \<open>re.search\<close> (\<open>None\<close> where it raises \<open>re.error\<close>).
  \<open>job_info\<close> gives the number of \<open>lastCompletedBuild\<close>; a server call answers \<open>None\<close>
  where python-jenkins raises.
\<close>

record env =
  now :: datetime
  job_info :: "string \<Rightarrow> int option option"
  build_infos :: "string \<Rightarrow> int \<Rightarrow> build_info option"
  console_output :: "string \<Rightarrow> int \<Rightarrow> string option"
  causes_file :: causes_source
  re_search :: "string \<Rightarrow> string \<Rightarrow> re_flag list \<Rightarrow> bool option"

text \<open>
  What the run changes: the calls made so far and the \<open>lru_cache\<close> of \<open>get_causes\<close>.
\<close>

record run_state =
  trace :: "event list"
  causes_cache :: "causes option"

definition log_event :: "event \<Rightarrow> run_state \<Rightarrow> run_state" where
  "log_event e st = st\<lparr>trace := trace st @ [e]\<rparr>"

text \<open>
  \<open>cause_info\<close> of a build: the empty string for a successful build, a list of cause
  names otherwise.
\<close>

datatype cause_info = EmptyStr | CauseList "string list"

text \<open>Iterating over a \<open>cause_info\<close>, as \<open>display_build_summary\<close> does.\<close>

fun cause_names :: "cause_info \<Rightarrow> string list" where
  "cause_names EmptyStr = []"
| "cause_names (CauseList cs) = cs"

record build_status =
  bs_job_name :: string
  bs_build_info :: build_info
  bs_build_number :: int
  bs_cause_info :: cause_info

text \<open>
  \<open>build_statuses\<close>: a dict in insertion order. The key \<open>'{}_{}'.format(job_name,
  build_number)\<close> is kept as the pair it is formatted from.
\<close>

type_synonym build_statuses = "((string \<times> int) \<times> build_status) list"

record row =
  row_job_name :: string
  row_build_no :: int
  row_status :: string
  row_cause :: string
  row_bug_urls :: string
  row_build_url :: string
  row_build_info :: string

section \<open>The cause search\<close>

text \<open>\<open>search_str in output\<close>: the exact, case-sensitive substring test of Python.\<close>

fun starts_with :: "string \<Rightarrow> string \<Rightarrow> bool" where
  "starts_with [] ys = True"
| "starts_with (x # xs) [] = False"
| "starts_with (x # xs) (y # ys) = (x = y \<and> starts_with xs ys)"

fun str_in :: "string \<Rightarrow> string \<Rightarrow> bool" where
  "str_in s [] = (s = [])"
| "str_in s (c # cs) = (starts_with s (c # cs) \<or> str_in s cs)"

text \<open>
  \<open>get_causes\<close>: the cached dict if there is one, else the file is opened and parsed
  and the dict is cached. An exception is not cached.
\<close>

definition get_causes :: "env \<Rightarrow> run_state \<Rightarrow> (error + causes) \<times> run_state" where
  "get_causes E st =
     (case causes_cache st of
        Some data \<Rightarrow> (Inr data, st)
      | None \<Rightarrow>
          (case causes_file E of
             Missing \<Rightarrow> (Inl FileNotFoundError, log_event OpenCausesFile st)
           | Unparsable \<Rightarrow> (Inl YAMLError, log_event OpenCausesFile st)
           | Parsed data \<Rightarrow>
               (Inr data, (log_event OpenCausesFile st)\<lparr>causes_cache := Some data\<rparr>)))"

text \<open>The loop over \<open>cause_data.get('re')\<close>.\<close>

fun search_re ::
  "env \<Rightarrow> string \<Rightarrow> string \<Rightarrow> string list \<Rightarrow> string list \<Rightarrow> error + string list" where
  "search_re E output cause_name [] failure_reasons = Inr failure_reasons"
| "search_re E output cause_name (reg_exp # rest) failure_reasons =
     (case re_search E reg_exp output [DOTALL] of
        None \<Rightarrow> Inl (RegexError reg_exp)
      | Some m \<Rightarrow>
          search_re E output cause_name rest
            (if m then failure_reasons @ [cause_name] else failure_reasons))"

text \<open>The loop over \<open>cause_data.get('text')\<close>.\<close>

fun search_text :: "string \<Rightarrow> string \<Rightarrow> string list \<Rightarrow> string list \<Rightarrow> string list" where
  "search_text output cause_name [] failure_reasons = failure_reasons"
| "search_text output cause_name (search_str # rest) failure_reasons =
     search_text output cause_name rest
       (if str_in search_str output then failure_reasons @ [cause_name]
        else failure_reasons)"

text \<open>
  The loop over \<open>causes.items()\<close>. A missing or empty list is falsy and skipped.
\<close>

fun search_causes :: "env \<Rightarrow> string \<Rightarrow> causes \<Rightarrow> string list \<Rightarrow> error + string list" where
  "search_causes E output [] failure_reasons = Inr failure_reasons"
| "search_causes E output ((cause_name, cd) # rest) failure_reasons =
     (case (case cause_re cd of
              Some (r # rs) \<Rightarrow> search_re E output cause_name (r # rs) failure_reasons
            | _ \<Rightarrow> Inr failure_reasons) of
        Inl e \<Rightarrow> Inl e
      | Inr fr \<Rightarrow>
          search_causes E output rest
            (case cause_text cd of
               Some (t # ts) \<Rightarrow> search_text output cause_name (t # ts) fr
             | _ \<Rightarrow> fr))"

text \<open>
  \<open>search_for_cause\<close>: the console output is fetched first, then the causes are loaded.
  \<open>list(set(failure_reasons))\<close> keeps one copy of each name; the order Python gives them
  is that of its hash table, here it is the order of \<open>remdups\<close>.
\<close>

definition search_for_cause ::
  "env \<Rightarrow> string \<Rightarrow> int \<Rightarrow> run_state \<Rightarrow> (error + string list) \<times> run_state" where
  "search_for_cause E job_name number st =
     (let st1 = log_event (GetConsoleOutput job_name number) st in
      case console_output E job_name number of
        None \<Rightarrow> (Inl (LogFetchError job_name number), st1)
      | Some output \<Rightarrow>
          (case get_causes E st1 of
             (Inl e, st2) \<Rightarrow> (Inl e, st2)
           | (Inr causes, st2) \<Rightarrow>
               (case search_causes E output causes [] of
                  Inl e \<Rightarrow> (Inl e, st2)
                | Inr failure_reasons \<Rightarrow> (Inr (remdups failure_reasons), st2))))"

section \<open>Selecting the builds\<close>

text \<open>
  \<open>datetime.fromtimestamp(ms / 1000)\<close>: the milliseconds of the server as a datetime.
\<close>

definition fromtimestamp_ms :: "int \<Rightarrow> datetime" where
  "fromtimestamp_ms ms = ms * 1000"

definition timedelta_hours :: "int \<Rightarrow> int" where
  "timedelta_hours h = h * 3600000000"

definition get_build_info ::
  "env \<Rightarrow> string \<Rightarrow> int \<Rightarrow> run_state \<Rightarrow> (error + build_info) \<times> run_state" where
  "get_build_info E job_name build_number st =
     (let st1 = log_event (GetBuildInfo job_name build_number) st in
      case build_infos E job_name build_number of
        None \<Rightarrow> (Inl (BuildNotFound job_name build_number), st1)
      | Some bi \<Rightarrow> (Inr (bi\<lparr>timestamp := fromtimestamp_ms (timestamp bi)\<rparr>), st1))"

definition is_build_included :: "build_info \<Rightarrow> datetime \<Rightarrow> bool \<Rightarrow> bool" where
  "is_build_included bi min_start_time include_success =
     (if timestamp bi < min_start_time then False
      else if result bi = ''SUCCESS'' \<and> \<not> include_success then False
      else True)"

definition get_build_fail_cause ::
  "env \<Rightarrow> build_info \<Rightarrow> string \<Rightarrow> int \<Rightarrow> run_state \<Rightarrow> (error + cause_info) \<times> run_state" where
  "get_build_fail_cause E bi job_name build_number st =
     (if result bi = ''SUCCESS'' then (Inr EmptyStr, st)
      else (case search_for_cause E job_name build_number st of
              (Inl e, st1) \<Rightarrow> (Inl e, st1)
            | (Inr cs, st1) \<Rightarrow> (Inr (CauseList cs), st1)))"

text \<open>
  One pass through the body of the \<open>while\<close> loop of \<open>display_builds_for_job\<close>: it
  gives the new \<open>job_time\<close> and the new \<open>build_statuses\<close>.
\<close>

definition loop_body ::
  "env \<Rightarrow> string \<Rightarrow> datetime \<Rightarrow> bool \<Rightarrow> int \<Rightarrow> build_statuses \<Rightarrow> run_state \<Rightarrow>
     (error + datetime \<times> build_statuses) \<times> run_state" where
  "loop_body E job_name min_start_time include_success build_number statuses st =
     (case get_build_info E job_name build_number st of
        (Inl e, st1) \<Rightarrow> (Inl e, st1)
      | (Inr bi, st1) \<Rightarrow>
          (if is_build_included bi min_start_time include_success then
             (case get_build_fail_cause E bi job_name build_number st1 of
                (Inl e, st2) \<Rightarrow> (Inl e, st2)
              | (Inr ci, st2) \<Rightarrow>
                  (Inr (timestamp bi,
                        AList.update (job_name, build_number)
                          \<lparr>bs_job_name = job_name, bs_build_info = bi,
                           bs_build_number = build_number, bs_cause_info = ci\<rparr>
                          statuses),
                   st2))
           else (Inr (timestamp bi, statuses), st1)))"

text \<open>
  The \<open>while\<close> loop. It need not end: the result is \<open>None\<close> when it runs forever.
\<close>

partial_function (option) walk ::
  "env \<Rightarrow> string \<Rightarrow> datetime \<Rightarrow> bool \<Rightarrow> int \<Rightarrow> datetime \<Rightarrow> build_statuses \<Rightarrow> run_state \<Rightarrow>
     ((error + build_statuses) \<times> run_state) option" where
  "walk E job_name min_start_time include_success build_number job_time statuses st =
     (if job_time > min_start_time then
        (case loop_body E job_name min_start_time include_success build_number statuses st of
           (Inl e, st1) \<Rightarrow> Some (Inl e, st1)
         | (Inr (job_time1, statuses1), st1) \<Rightarrow>
             walk E job_name min_start_time include_success (build_number - 1)
               job_time1 statuses1 st1)
      else Some (Inr statuses, st))"

declare walk.simps [code]

text \<open>\<open>'\n'.join(xs)\<close>.\<close>

fun join_nl :: "string list \<Rightarrow> string" where
  "join_nl [] = []"
| "join_nl [x] = x"
| "join_nl (x # y # ys) = x @ [CHR 0x0A] @ join_nl (y # ys)"

text \<open>
  \<open>[causes[c].get('bug_data', {}).get('url', '') for c in build_data['cause_info']]\<close>;
  \<open>causes[c]\<close> raises \<open>KeyError\<close> for a name that is not in the dict.
\<close>

fun bug_urls :: "causes \<Rightarrow> string list \<Rightarrow> error + string list" where
  "bug_urls causes [] = Inr []"
| "bug_urls causes (c # cs) =
     (case map_of causes c of
        None \<Rightarrow> Inl (KeyError c)
      | Some cd \<Rightarrow>
          (case bug_urls causes cs of
             Inl e \<Rightarrow> Inl e
           | Inr us \<Rightarrow>
               Inr ((case bug_data cd of
                       None \<Rightarrow> []
                     | Some None \<Rightarrow> []
                     | Some (Some u) \<Rightarrow> u) # us)))"

text \<open>The loop over \<open>build_statuses.values()\<close>.\<close>

fun summary_rows :: "causes \<Rightarrow> build_statuses \<Rightarrow> error + row list" where
  "summary_rows causes [] = Inr []"
| "summary_rows causes ((k, bd) # rest) =
     (case bug_urls causes (cause_names (bs_cause_info bd)) of
        Inl e \<Rightarrow> Inl e
      | Inr us \<Rightarrow>
          (case summary_rows causes rest of
             Inl e \<Rightarrow> Inl e
           | Inr rows \<Rightarrow>
               Inr (\<lparr>row_job_name = bs_job_name bd,
                     row_build_no = bs_build_number bd,
                     row_status = result (bs_build_info bd),
                     row_cause = join_nl (cause_names (bs_cause_info bd)),
                     row_bug_urls = join_nl us,
                     row_build_url = url (bs_build_info bd),
                     row_build_info =
                       (case displayName (bs_build_info bd) of
                          None \<Rightarrow> []
                        | Some d \<Rightarrow> d)\<rparr> # rows)))"

text \<open>
  \<open>display_build_summary\<close>: the rows of the table that is printed, below its header.
\<close>

definition display_build_summary ::
  "env \<Rightarrow> build_statuses \<Rightarrow> run_state \<Rightarrow> (error + row list) \<times> run_state" where
  "display_build_summary E statuses st =
     (case get_causes E st of
        (Inl e, st1) \<Rightarrow> (Inl e, st1)
      | (Inr causes, st1) \<Rightarrow> (summary_rows causes statuses, st1))"

text \<open>
  \<open>display_builds_for_job\<close>. The result is \<open>None\<close> if the loop never ends; else an
  exception, or \<open>Inr None\<close> when the function returns without a table, or the rows of
  the table.
\<close>

definition display_builds_for_job ::
  "env \<Rightarrow> string \<Rightarrow> int \<Rightarrow> bool \<Rightarrow> run_state \<Rightarrow>
     ((error + row list option) \<times> run_state) option" where
  "display_builds_for_job E job_name hours_ago include_success st =
     (let min_start_time = now E - timedelta_hours hours_ago;
          st1 = log_event (GetJobInfo job_name) st
      in case job_info E job_name of
           None \<Rightarrow> Some (Inl (JobNotFound job_name), st1)
         | Some None \<Rightarrow> Some (Inr None, st1)
         | Some (Some number) \<Rightarrow>
             (case walk E job_name min_start_time include_success number (now E) [] st1 of
                None \<Rightarrow> None
              | Some (Inl e, st2) \<Rightarrow> Some (Inl e, st2)
              | Some (Inr statuses, st2) \<Rightarrow>
                  (case display_build_summary E statuses st2 of
                     (Inl e, st3) \<Rightarrow> Some (Inl e, st3)
                   | (Inr rows, st3) \<Rightarrow> Some (Inr (Some rows), st3))))"

definition init_state :: run_state where
  "init_state = \<lparr>trace = [], causes_cache = None\<rparr>"

section \<open>A regular expression engine for the examples\<close>

text \<open>
  \<open>re.search\<close> is a parameter of the model. The examples below run it on the patterns
  made of plain characters, \<open>.\<close>, \<open>*\<close>, \<open>|\<close> and parentheses, with Python's meaning:
  \<open>.\<close> matches every character but the newline, and the newline too under \<open>DOTALL\<close>.
  A pattern that Python rejects (an unbalanced parenthesis, a \<open>*\<close> with nothing to
  repeat or after another \<open>*\<close>) is rejected; so is every pattern with another
  metacharacter, which these examples do not use.
\<close>

datatype rx = Nothing | Eps | Chr char | Dot | Grp rx | Seq rx rx | Alt rx rx | Star rx

fun nullable :: "rx \<Rightarrow> bool" where
  "nullable Nothing = False"
| "nullable Eps = True"
| "nullable (Chr c) = False"
| "nullable Dot = False"
| "nullable (Grp r) = nullable r"
| "nullable (Seq r s) = (nullable r \<and> nullable s)"
| "nullable (Alt r s) = (nullable r \<or> nullable s)"
| "nullable (Star r) = True"

fun deriv :: "re_flag list \<Rightarrow> char \<Rightarrow> rx \<Rightarrow> rx" where
  "deriv fl c Nothing = Nothing"
| "deriv fl c Eps = Nothing"
| "deriv fl c (Chr d) = (if c = d then Eps else Nothing)"
| "deriv fl c Dot = (if c \<noteq> CHR 0x0A \<or> DOTALL \<in> set fl then Eps else Nothing)"
| "deriv fl c (Grp r) = deriv fl c r"
| "deriv fl c (Seq r s) =
     (if nullable r then Alt (Seq (deriv fl c r) s) (deriv fl c s)
      else Seq (deriv fl c r) s)"
| "deriv fl c (Alt r s) = Alt (deriv fl c r) (deriv fl c s)"
| "deriv fl c (Star r) = Seq (deriv fl c r) (Star r)"

text \<open>Some prefix of the text matches; some substring of the text matches.\<close>

fun match_here :: "re_flag list \<Rightarrow> rx \<Rightarrow> string \<Rightarrow> bool" where
  "match_here fl r [] = nullable r"
| "match_here fl r (c # cs) = (nullable r \<or> match_here fl (deriv fl c r) cs)"

fun search_rx :: "re_flag list \<Rightarrow> rx \<Rightarrow> string \<Rightarrow> bool" where
  "search_rx fl r [] = nullable r"
| "search_rx fl r (c # cs) = (match_here fl r (c # cs) \<or> search_rx fl r cs)"

text \<open>
  The parser keeps one frame for each open parenthesis: the branches closed by \<open>|\<close> and
  the atoms of the branch being read, both latest first.
\<close>

fun seq_of :: "rx list \<Rightarrow> rx" where
  "seq_of [] = Eps"
| "seq_of [r] = r"
| "seq_of (r # rs) = Seq r (seq_of rs)"

fun alt_of :: "rx list \<Rightarrow> rx" where
  "alt_of [] = Nothing"
| "alt_of [r] = r"
| "alt_of (r # rs) = Alt r (alt_of rs)"

definition close_frame :: "rx list \<times> rx list \<Rightarrow> rx" where
  "close_frame f = alt_of (rev (seq_of (rev (snd f)) # fst f))"

fun parse_rx :: "string \<Rightarrow> (rx list \<times> rx list) list \<Rightarrow> rx option" where
  "parse_rx [] [f] = Some (close_frame f)"
| "parse_rx [] stack = None"
| "parse_rx (c # cs) [] = None"
| "parse_rx (c # cs) ((alts, atoms) # stack) =
     (if c = CHR ''('' then parse_rx cs (([], []) # (alts, atoms) # stack)
      else if c = CHR '')'' then
        (case stack of
           [] \<Rightarrow> None
         | (alts', atoms') # stack' \<Rightarrow>
             parse_rx cs ((alts', Grp (close_frame (alts, atoms)) # atoms') # stack'))
      else if c = CHR ''|'' then parse_rx cs ((seq_of (rev atoms) # alts, []) # stack)
      else if c = CHR ''*'' then
        (case atoms of
           [] \<Rightarrow> None
         | Star a # atoms' \<Rightarrow> None
         | a # atoms' \<Rightarrow> parse_rx cs ((alts, Star a # atoms') # stack))
      else if c = CHR ''.'' then parse_rx cs ((alts, Dot # atoms) # stack)
      else if c \<in> set ''[]{}+?^$'' \<or> c = CHR 0x5C then None
      else parse_rx cs ((alts, Chr c # atoms) # stack))"

definition fragment_re_search :: "string \<Rightarrow> string \<Rightarrow> re_flag list \<Rightarrow> bool option" where
  "fragment_re_search pattern string flags =
     (case parse_rx pattern [([], [])] of
        None \<Rightarrow> None
      | Some r \<Rightarrow> Some (search_rx flags r string))"

section \<open>Reading a run\<close>

text \<open>The build numbers whose metadata was fetched, in the order of the fetches.\<close>

fun build_fetches :: "event list \<Rightarrow> int list" where
  "build_fetches [] = []"
| "build_fetches (GetBuildInfo j n # es) = n # build_fetches es"
| "build_fetches (e # es) = build_fetches es"

text \<open>The datetime that \<open>get_build_info\<close> computes for a build of the server.\<close>

definition build_time :: "env \<Rightarrow> string \<Rightarrow> int \<Rightarrow> datetime option" where
  "build_time E job_name n =
     (case build_infos E job_name n of
        None \<Rightarrow> None
      | Some bi \<Rightarrow> Some (fromtimestamp_ms (timestamp bi)))"

text \<open>
  The build \<open>n\<close> of the server passes \<open>is_build_included\<close>, as the loop calls it: on the
  build info that \<open>get_build_info\<close> returns for \<open>n\<close>.
\<close>

definition build_included :: "env \<Rightarrow> string \<Rightarrow> datetime \<Rightarrow> bool \<Rightarrow> int \<Rightarrow> bool" where
  "build_included E job_name min_start_time include_success n =
     (case build_infos E job_name n of
        None \<Rightarrow> False
      | Some bi \<Rightarrow>
          is_build_included (bi\<lparr>timestamp := fromtimestamp_ms (timestamp bi)\<rparr>)
            min_start_time include_success)"

text \<open>\<open>re.search\<close> raises on no pattern of the cause dict, for this text.\<close>

definition patterns_ok :: "env \<Rightarrow> causes \<Rightarrow> string \<Rightarrow> bool" where
  "patterns_ok E causes output =
     (\<forall>(name, cd) \<in> set causes.
        case cause_re cd of
          None \<Rightarrow> True
        | Some ps \<Rightarrow> (\<forall>p \<in> set ps. re_search E p output [DOTALL] \<noteq> None))"

text \<open>The cache of \<open>get_causes\<close> holds nothing but what the file gives.\<close>

definition cache_ok :: "env \<Rightarrow> run_state \<Rightarrow> bool" where
  "cache_ok E st = (case causes_cache st of None \<Rightarrow> True | Some c \<Rightarrow> causes_file E = Parsed c)"

text \<open>Some rule of a cause matches the text: one of its patterns, or one of its strings.\<close>

definition cause_matches :: "env \<Rightarrow> string \<Rightarrow> cause_data \<Rightarrow> bool" where
  "cause_matches E output cd =
     ((case cause_re cd of
         None \<Rightarrow> False
       | Some ps \<Rightarrow> (\<exists>p \<in> set ps. re_search E p output [DOTALL] = Some True))
      \<or> (case cause_text cd of
            None \<Rightarrow> False
          | Some ts \<Rightarrow> (\<exists>s \<in> set ts. str_in s output)))"

text \<open>
  The exception that \<open>get_causes\<close> ends with when causes.yaml cannot be read: that of
  \<open>open\<close> for a missing file, that of \<open>yaml.safe_load\<close> for one that does not parse.
\<close>

definition load_error :: "env \<Rightarrow> error" where
  "load_error E = (if causes_file E = Missing then FileNotFoundError else YAMLError)"

text \<open>causes.yaml has not been opened so far.\<close>

definition unopened :: "run_state \<Rightarrow> bool" where
  "unopened st = (causes_cache st = None \<and> OpenCausesFile \<notin> set (trace st))"

text \<open>The run has ended with the exception of its one attempt to open causes.yaml.\<close>

definition ended_at_open :: "env \<Rightarrow> error \<Rightarrow> run_state \<Rightarrow> bool" where
  "ended_at_open E e st =
     (e = load_error E \<and> causes_cache st = None
      \<and> (\<exists>evs. trace st = evs @ [OpenCausesFile] \<and> OpenCausesFile \<notin> set evs))"


section \<open>Example runs\<close>

definition hours_ms :: "int \<Rightarrow> int" where
  "hours_ms h = h * 3600000"

definition mk_build :: "int \<Rightarrow> string \<Rightarrow> build_info" where
  "mk_build h r = \<lparr>timestamp = hours_ms h, result = r, url = ''http://ci/b'', displayName = None\<rparr>"

definition ex_causes :: causes where
  "ex_causes =
     [(''oom'', \<lparr>cause_re = None, cause_text = Some [''OutOfMemoryError'', ''Killed''],
                bug_data = Some (Some ''http://bugs/1'')\<rparr>),
      (''trace'', \<lparr>cause_re = Some [''Traceback.*Error'', ''Err(o|e)r''],
                  cause_text = Some [''Error''], bug_data = None\<rparr>)]"

text \<open>
  A server with one job, whose builds and console logs are given by two tables; the clock
  stands at hour 100.
\<close>

definition mk_env ::
  "int option \<Rightarrow> (int \<times> build_info) list \<Rightarrow> (int \<times> string) list \<Rightarrow> causes_source \<Rightarrow> env" where
  "mk_env last_build builds logs src =
     \<lparr>now = timedelta_hours 100,
      job_info = (\<lambda>j. if j = ''job'' then Some last_build else None),
      build_infos = (\<lambda>j n. if j = ''job'' then map_of builds n else None),
      console_output = (\<lambda>j n. if j = ''job'' then map_of logs n else None),
      causes_file = src,
      re_search = fragment_re_search\<rparr>"

text \<open>
  The example of the specification: build 50 succeeds now, build 49 fails two hours
  ago with an out-of-memory log, build 48 fails forty hours ago.
\<close>

definition spec_env :: env where
  "spec_env =
     mk_env (Some 50)
       [(50, mk_build 100 ''SUCCESS''), (49, mk_build 98 ''FAILURE''),
        (48, mk_build 60 ''FAILURE'')]
       [(50, ''ok''), (49, ''java.lang.OutOfMemoryError: heap''), (48, ''Timeout'')]
       (Parsed ex_causes)"


text \<open>Build 2 was deleted; builds 3 and 1 are inside the window.\<close>

definition pruned_env :: env where
  "pruned_env =
     mk_env (Some 3)
       [(3, mk_build 99 ''SUCCESS''), (1, mk_build 98 ''FAILURE''), (0, mk_build 10 ''SUCCESS'')]
       [(1, ''Killed'')] (Parsed ex_causes)"

text \<open>The console log of the failed build 2 cannot be fetched.\<close>

definition nolog_env :: env where
  "nolog_env =
     mk_env (Some 2)
       [(2, mk_build 99 ''FAILURE''), (1, mk_build 10 ''SUCCESS'')]
       [] (Parsed ex_causes)"

text \<open>causes.yaml is missing.\<close>

definition nofile_env :: env where
  "nofile_env =
     mk_env (Some 2)
       [(2, mk_build 99 ''FAILURE''), (1, mk_build 10 ''SUCCESS'')]
       [(2, ''Killed'')] Missing"

text \<open>causes.yaml holds a regular expression with an unbalanced parenthesis.\<close>

definition bad_causes :: causes where
  "bad_causes =
     [(''oom'', \<lparr>cause_re = None, cause_text = Some [''Killed''], bug_data = None\<rparr>),
      (''bad'', \<lparr>cause_re = Some [''(''], cause_text = None, bug_data = None\<rparr>)]"

definition badre_env :: env where
  "badre_env =
     mk_env (Some 2)
       [(2, mk_build 99 ''FAILURE''), (1, mk_build 10 ''SUCCESS'')]
       [(2, ''Killed'')] (Parsed bad_causes)"

text \<open>A log whose traceback runs over three lines, and a log in lower case.\<close>

definition multiline_log :: string where
  "multiline_log =
     ''Traceback (most recent call last):'' @ [CHR 0x0A] @ ''  File x.py'' @ [CHR 0x0A]
       @ ''ValueError: bad''"

definition multiline_env :: env where
  "multiline_env =
     mk_env (Some 2)
       [(2, mk_build 99 ''FAILURE''), (1, mk_build 10 ''SUCCESS'')]
       [(2, multiline_log)]
       (Parsed [(''trace'', \<lparr>cause_re = Some [''Traceback.*Error''], cause_text = None,
                             bug_data = None\<rparr>)])"

definition lowercase_env :: env where
  "lowercase_env =
     mk_env (Some 2)
       [(2, mk_build 99 ''FAILURE''), (1, mk_build 10 ''SUCCESS'')]
       [(2, ''process killed; outofmemoryerror'')]
       (Parsed ex_causes)"

section \<open>Facts about the cause search\<close>

lemma starts_with_iff: "starts_with s ys \<longleftrightarrow> (\<exists>post. ys = s @ post)"
  by (induction s ys rule: starts_with.induct) auto

lemma str_in_iff: "str_in s L \<longleftrightarrow> (\<exists>pre post. L = pre @ s @ post)"
proof (induction L)
  case Nil
  then show ?case by auto
next
  case (Cons c cs)
  show ?case
  proof
    assume "str_in s (c # cs)"
    then consider "starts_with s (c # cs)" | "str_in s cs" by auto
    then show "\<exists>pre post. c # cs = pre @ s @ post"
    proof cases
      case 1
      then obtain post where "c # cs = s @ post" by (auto simp: starts_with_iff)
      then have "c # cs = [] @ s @ post" by simp
      then show ?thesis by blast
    next
      case 2
      then obtain pre post where "cs = pre @ s @ post" using Cons.IH by blast
      then have "c # cs = (c # pre) @ s @ post" by simp
      then show ?thesis by blast
    qed
  next
    assume "\<exists>pre post. c # cs = pre @ s @ post"
    then obtain pre post where eq: "c # cs = pre @ s @ post" by blast
    show "str_in s (c # cs)"
    proof (cases pre)
      case Nil
      then have "starts_with s (c # cs)" using eq by (auto simp: starts_with_iff)
      then show ?thesis by simp
    next
      case (Cons p pre')
      then have "cs = pre' @ s @ post" using eq by simp
      then have "str_in s cs" using Cons.IH by blast
      then show ?thesis by simp
    qed
  qed
qed

lemma search_re_set:
  "search_re E L nm ps fr = Inr fr' \<Longrightarrow>
     set fr' = set fr \<union> (if \<exists>p \<in> set ps. re_search E p L [DOTALL] = Some True then {nm} else {})"
  by (induction ps arbitrary: fr) (auto split: option.splits if_splits)

lemma search_re_total:
  "\<forall>p \<in> set ps. re_search E p L [DOTALL] \<noteq> None \<Longrightarrow> \<exists>fr'. search_re E L nm ps fr = Inr fr'"
  by (induction ps arbitrary: fr) (auto split: option.splits)

lemma search_re_error:
  "search_re E L nm ps fr = Inl e \<Longrightarrow>
     \<exists>p \<in> set ps. e = RegexError p \<and> re_search E p L [DOTALL] = None"
  by (induction ps arbitrary: fr) (auto split: option.splits)

lemma search_re_bad:
  "p \<in> set ps \<Longrightarrow> re_search E p L [DOTALL] = None \<Longrightarrow> \<exists>e. search_re E L nm ps fr = Inl e"
  by (induction ps arbitrary: fr) (auto split: option.splits)

lemma search_text_set:
  "set (search_text L nm ts fr) = set fr \<union> (if \<exists>s \<in> set ts. str_in s L then {nm} else {})"
  by (induction ts arbitrary: fr) auto

lemma re_step_set:
  assumes a: "(case cause_re cd of Some (r # rs) \<Rightarrow> search_re E L nm (r # rs) fr | _ \<Rightarrow> Inr fr) = Inr fr1"
  shows "set fr1 = set fr \<union> (if \<exists>ps. cause_re cd = Some ps \<and> (\<exists>p \<in> set ps. re_search E p L [DOTALL] = Some True) then {nm} else {})"
proof (cases "cause_re cd")
  case None
  then show ?thesis using a by simp
next
  case (Some ps)
  show ?thesis
  proof (cases ps)
    case Nil
    then show ?thesis using a Some by simp
  next
    case (Cons r rs)
    then have "search_re E L nm ps fr = Inr fr1" using a Some by simp
    from search_re_set[OF this] show ?thesis using Some by simp
  qed
qed

lemma text_step_set:
  "set (case cause_text cd of Some (t # ts) \<Rightarrow> search_text L nm (t # ts) fr1 | _ \<Rightarrow> fr1) =
     set fr1 \<union> (if \<exists>ts. cause_text cd = Some ts \<and> (\<exists>s \<in> set ts. str_in s L) then {nm} else {})"
proof (cases "cause_text cd")
  case None
  then show ?thesis by simp
next
  case (Some ts)
  show ?thesis
  proof (cases ts)
    case Nil
    then show ?thesis using Some by simp
  next
    case (Cons t ts')
    then show ?thesis using Some search_text_set[of L nm ts fr1] by simp
  qed
qed

lemma search_causes_set:
  "search_causes E L C fr = Inr fr' \<Longrightarrow>
     set fr' = set fr \<union> {nm. \<exists>cd. (nm, cd) \<in> set C \<and> cause_matches E L cd}"
proof (induction C arbitrary: fr)
  case Nil
  then show ?case by simp
next
  case (Cons a C)
  obtain nm cd where a: "a = (nm, cd)" by (cases a)
  define r1 where "r1 = (case cause_re cd of Some (r # rs) \<Rightarrow> search_re E L nm (r # rs) fr | _ \<Rightarrow> Inr fr)"
  from Cons.prems a obtain fr1 where r1: "r1 = Inr fr1"
    by (cases r1) (simp_all add: r1_def)
  define fr2 where "fr2 = (case cause_text cd of Some (t # ts) \<Rightarrow> search_text L nm (t # ts) fr1 | _ \<Rightarrow> fr1)"
  have rest: "search_causes E L C fr2 = Inr fr'"
    using Cons.prems a r1 by (simp add: r1_def fr2_def)
  have s1: "set fr1 = set fr \<union> (if \<exists>ps. cause_re cd = Some ps \<and> (\<exists>p \<in> set ps. re_search E p L [DOTALL] = Some True) then {nm} else {})"
    using r1 unfolding r1_def by (rule re_step_set)
  have s2: "set fr2 = set fr1 \<union> (if \<exists>ts. cause_text cd = Some ts \<and> (\<exists>s \<in> set ts. str_in s L) then {nm} else {})"
    unfolding fr2_def by (rule text_step_set)
  have s3: "set fr2 = set fr \<union> (if cause_matches E L cd then {nm} else {})"
    unfolding s2 s1 cause_matches_def by (auto split: option.splits)
  have "set fr' = set fr2 \<union> {nm. \<exists>cd. (nm, cd) \<in> set C \<and> cause_matches E L cd}"
    by (rule Cons.IH[OF rest])
  then show ?case unfolding s3 a by auto
qed


lemma search_re_Inr_iff:
  "(\<exists>fr'. search_re E L nm ps fr = Inr fr') \<longleftrightarrow> (\<forall>p \<in> set ps. re_search E p L [DOTALL] \<noteq> None)"
  by (induction ps arbitrary: fr) (auto split: option.splits)

lemma re_step_Inr_iff:
  "(\<exists>fr1. (case cause_re cd of Some (r # rs) \<Rightarrow> search_re E L nm (r # rs) fr | _ \<Rightarrow> Inr fr) = Inr fr1)
     \<longleftrightarrow> (\<forall>ps. cause_re cd = Some ps \<longrightarrow> (\<forall>p \<in> set ps. re_search E p L [DOTALL] \<noteq> None))"
proof (cases "cause_re cd")
  case None
  then show ?thesis by simp
next
  case (Some ps)
  show ?thesis
  proof (cases ps)
    case Nil
    then show ?thesis using Some by simp
  next
    case (Cons r rs)
    then show ?thesis using Some search_re_Inr_iff[of E L nm ps fr] by simp
  qed
qed

lemma patterns_ok_Nil: "patterns_ok E [] L"
  by (simp add: patterns_ok_def)

lemma patterns_ok_Cons:
  "patterns_ok E ((nm, cd) # C) L \<longleftrightarrow>
     (\<forall>ps. cause_re cd = Some ps \<longrightarrow> (\<forall>p \<in> set ps. re_search E p L [DOTALL] \<noteq> None))
     \<and> patterns_ok E C L"
  by (simp add: patterns_ok_def split: option.splits)

lemma search_causes_Inr_iff:
  "(\<exists>fr'. search_causes E L C fr = Inr fr') \<longleftrightarrow> patterns_ok E C L"
proof (induction C arbitrary: fr)
  case Nil
  then show ?case by (simp add: patterns_ok_Nil)
next
  case (Cons a C)
  obtain nm cd where a: "a = (nm, cd)" by (cases a)
  define r1 where "r1 = (case cause_re cd of Some (r # rs) \<Rightarrow> search_re E L nm (r # rs) fr | _ \<Rightarrow> Inr fr)"
  show ?case
  proof (cases r1)
    case (Inl e)
    then have "search_causes E L (a # C) fr = Inl e" by (simp add: a r1_def)
    moreover have "\<not> (\<forall>ps. cause_re cd = Some ps \<longrightarrow> (\<forall>p \<in> set ps. re_search E p L [DOTALL] \<noteq> None))"
      using re_step_Inr_iff[where cd=cd and E=E and L=L and nm=nm and fr=fr] Inl unfolding r1_def by simp
    ultimately show ?thesis by (simp add: a patterns_ok_Cons)
  next
    case (Inr fr1)
    then have eq: "search_causes E L (a # C) fr =
        search_causes E L C (case cause_text cd of Some (t # ts) \<Rightarrow> search_text L nm (t # ts) fr1 | _ \<Rightarrow> fr1)"
      by (simp add: a r1_def)
    have "\<forall>ps. cause_re cd = Some ps \<longrightarrow> (\<forall>p \<in> set ps. re_search E p L [DOTALL] \<noteq> None)"
      using re_step_Inr_iff[where cd=cd and E=E and L=L and nm=nm and fr=fr] Inr unfolding r1_def by blast
    then have "patterns_ok E (a # C) L \<longleftrightarrow> patterns_ok E C L"
      by (simp add: a patterns_ok_Cons)
    then show ?thesis unfolding eq using Cons.IH by simp
  qed
qed

lemma search_causes_error:
  "search_causes E L C fr = Inl e \<Longrightarrow>
     \<exists>nm cd ps p. (nm, cd) \<in> set C \<and> cause_re cd = Some ps \<and> p \<in> set ps \<and>
        e = RegexError p \<and> re_search E p L [DOTALL] = None"
proof (induction C arbitrary: fr)
  case Nil
  then show ?case by simp
next
  case (Cons a C)
  obtain nm cd where a: "a = (nm, cd)" by (cases a)
  define r1 where "r1 = (case cause_re cd of Some (r # rs) \<Rightarrow> search_re E L nm (r # rs) fr | _ \<Rightarrow> Inr fr)"
  show ?case
  proof (cases r1)
    case (Inl e')
    then have e: "e' = e" using Cons.prems by (simp add: a r1_def)
    from Inl obtain r rs where ps: "cause_re cd = Some (r # rs)" and sr: "search_re E L nm (r # rs) fr = Inl e"
      unfolding r1_def e by (auto split: option.splits list.splits)
    from search_re_error[OF sr] obtain p where "p \<in> set (r # rs)" "e = RegexError p" "re_search E p L [DOTALL] = None"
      by blast
    then show ?thesis using ps a by (intro exI[of _ nm] exI[of _ cd] exI[of _ "r # rs"] exI[of _ p]) simp
  next
    case (Inr fr1)
    then have "search_causes E L C (case cause_text cd of Some (t # ts) \<Rightarrow> search_text L nm (t # ts) fr1 | _ \<Rightarrow> fr1) = Inl e"
      using Cons.prems by (simp add: a r1_def)
    from Cons.IH[OF this] show ?thesis by auto
  qed
qed

lemma get_causes_parsed:
  assumes "causes_file E = Parsed C" and "cache_ok E st"
  shows "\<exists>st'. get_causes E st = (Inr C, st') \<and> causes_cache st' = Some C"
proof (cases "causes_cache st")
  case None
  then show ?thesis using assms by (simp add: get_causes_def)
next
  case (Some D)
  then have "D = C" using assms by (simp add: cache_ok_def)
  then show ?thesis using Some by (simp add: get_causes_def)
qed

lemma cache_ok_log_event [simp]: "cache_ok E (log_event e st) = cache_ok E st"
  by (simp add: cache_ok_def log_event_def)

lemma search_for_cause_parsed:
  assumes "console_output E job n = Some L" and "causes_file E = Parsed C" and "cache_ok E st"
  shows "\<exists>st'. search_for_cause E job n st =
           ((case search_causes E L C [] of Inl e \<Rightarrow> Inl e | Inr fr \<Rightarrow> Inr (remdups fr)), st')
         \<and> causes_cache st' = Some C"
proof -
  have "cache_ok E (log_event (GetConsoleOutput job n) st)" using assms(3) by simp
  from get_causes_parsed[OF assms(2) this]
  obtain st' where g: "get_causes E (log_event (GetConsoleOutput job n) st) = (Inr C, st')"
    and c: "causes_cache st' = Some C" by blast
  show ?thesis
    using assms(1) g c by (simp add: search_for_cause_def split: sum.splits)
qed

lemma search_for_cause_names:
  assumes "console_output E job n = Some L" and "causes_file E = Parsed C" and "cache_ok E st"
    and "search_for_cause E job n st = (Inr res, st')"
  shows "distinct res \<and> set res = {nm. \<exists>cd. (nm, cd) \<in> set C \<and> cause_matches E L cd}"
proof -
  from search_for_cause_parsed[OF assms(1-3)] assms(4)
  have eq: "(case search_causes E L C [] of Inl e \<Rightarrow> Inl e | Inr fr \<Rightarrow> Inr (remdups fr)) = Inr res"
    by auto
  then obtain fr where fr: "search_causes E L C [] = Inr fr" and res: "res = remdups fr"
    by (cases "search_causes E L C []") auto
  from search_causes_set[OF fr] show ?thesis using res by simp
qed

lemma search_for_cause_returns:
  assumes "console_output E job n = Some L" and "causes_file E = Parsed C" and "cache_ok E st"
    and "patterns_ok E C L"
  shows "\<exists>res st'. search_for_cause E job n st = (Inr res, st')"
proof -
  from assms(4) obtain fr where fr: "search_causes E L C [] = Inr fr"
    using search_causes_Inr_iff[of E L C "[]"] by blast
  from search_for_cause_parsed[OF assms(1-3)] show ?thesis using fr by auto
qed

lemma distinct_count_le_1: "distinct xs \<Longrightarrow> count_list xs x \<le> 1"
proof (induction xs)
  case Nil
  then show ?case by simp
next
  case (Cons y ys)
  show ?case
  proof (cases "x = y")
    case True
    then have "x \<notin> set ys" using Cons.prems by simp
    then have "count_list ys x = 0" by (simp add: count_list_0_iff)
    then show ?thesis using True by simp
  next
    case False
    then show ?thesis using Cons by simp
  qed
qed

section \<open>Facts about the examples\<close>

lemma dot_newline: "deriv fl (CHR 0x0A) Dot = (if DOTALL \<in> set fl then Eps else Nothing)"
  by simp

lemma spec_env_console_49:
  "console_output spec_env ''job'' 49 = Some ''java.lang.OutOfMemoryError: heap''"
  by (simp add: spec_env_def mk_env_def)

lemma spec_env_causes: "causes_file spec_env = Parsed ex_causes"
  by (simp add: spec_env_def mk_env_def)

lemma cache_ok_init: "cache_ok E init_state"
  by (simp add: cache_ok_def init_state_def)

lemma spec_env_patterns_ok:
  "patterns_ok spec_env ex_causes ''java.lang.OutOfMemoryError: heap''"
  by code_simp

lemma multiline_console: "console_output multiline_env ''job'' 2 = Some multiline_log"
  by (simp add: multiline_env_def mk_env_def)

lemma multiline_causes:
  "causes_file multiline_env =
     Parsed [(''trace'', \<lparr>cause_re = Some [''Traceback.*Error''], cause_text = None,
                           bug_data = None\<rparr>)]"
  by (simp add: multiline_env_def mk_env_def)

lemma multiline_re_search: "re_search multiline_env = fragment_re_search"
  by (simp add: multiline_env_def mk_env_def)

lemma multiline_match:
  "fragment_re_search ''Traceback.*Error'' multiline_log [DOTALL] = Some True"
  by code_simp

lemma multiline_no_match_without_flag:
  "fragment_re_search ''Traceback.*Error'' multiline_log [] = Some False"
  by code_simp

lemma lowercase_search:
  "fst (search_for_cause lowercase_env ''job'' 2 init_state) = Inr []"
  by code_simp

section \<open>Facts about the walk\<close>

lemma build_fetches_append: "build_fetches (xs @ ys) = build_fetches xs @ build_fetches ys"
  by (induction xs rule: build_fetches.induct) simp_all

lemma get_causes_state:
  assumes "get_causes E st = (r, st')"
  shows "build_fetches (trace st') = build_fetches (trace st)"
    and "cache_ok E st \<Longrightarrow> cache_ok E st'"
    and "\<exists>evs. trace st' = trace st @ evs"
  using assms
  by (auto simp: get_causes_def log_event_def cache_ok_def build_fetches_append
      split: option.splits causes_source.splits)

lemma search_for_cause_state:
  assumes "search_for_cause E job n st = (r, st')"
  shows "build_fetches (trace st') = build_fetches (trace st)"
    and "cache_ok E st \<Longrightarrow> cache_ok E st'"
    and "\<exists>evs. trace st' = trace st @ GetConsoleOutput job n # evs"
proof -
  define st1 where "st1 = log_event (GetConsoleOutput job n) st"
  have t1: "trace st1 = trace st @ [GetConsoleOutput job n]"
    and c1: "causes_cache st1 = causes_cache st"
    by (simp_all add: st1_def log_event_def)
  have f1: "build_fetches (trace st1) = build_fetches (trace st)"
    by (simp add: t1 build_fetches_append)
  have k1: "cache_ok E st1 = cache_ok E st" by (simp add: cache_ok_def c1)
  have "st' = st1 \<or> (\<exists>r2. get_causes E st1 = (r2, st'))"
    using assms unfolding search_for_cause_def Let_def st1_def[symmetric]
    by (auto split: option.splits sum.splits prod.splits)
  then show "build_fetches (trace st') = build_fetches (trace st)"
    and "cache_ok E st \<Longrightarrow> cache_ok E st'"
    and "\<exists>evs. trace st' = trace st @ GetConsoleOutput job n # evs"
    using f1 k1 t1 get_causes_state[of E st1 _ st'] by auto
qed

lemma get_build_fail_cause_state:
  assumes "get_build_fail_cause E bi job n st = (r, st')"
  shows "build_fetches (trace st') = build_fetches (trace st)"
    and "cache_ok E st \<Longrightarrow> cache_ok E st'"
    and "\<exists>evs. trace st' = trace st @ evs"
proof -
  have "st' = st \<or> (\<exists>r2. search_for_cause E job n st = (r2, st'))"
    using assms unfolding get_build_fail_cause_def
    by (auto split: if_splits sum.splits prod.splits)
  then show "build_fetches (trace st') = build_fetches (trace st)"
    and "cache_ok E st \<Longrightarrow> cache_ok E st'"
    and "\<exists>evs. trace st' = trace st @ evs"
    using search_for_cause_state[of E job n st _ st'] by auto
qed

lemma get_build_info_eq:
  "get_build_info E job n st =
     ((case build_infos E job n of
         None \<Rightarrow> Inl (BuildNotFound job n)
       | Some bi \<Rightarrow> Inr (bi\<lparr>timestamp := fromtimestamp_ms (timestamp bi)\<rparr>)),
      log_event (GetBuildInfo job n) st)"
  by (simp add: get_build_info_def Let_def split: option.splits)

lemma loop_body_missing:
  "build_infos E job n = None \<Longrightarrow>
     loop_body E job T s n statuses st =
       (Inl (BuildNotFound job n), log_event (GetBuildInfo job n) st)"
  by (simp add: loop_body_def get_build_info_eq)

lemma loop_body_state:
  assumes "loop_body E job T s n statuses st = (r, st')"
  shows "build_fetches (trace st') = build_fetches (trace st) @ [n]"
    and "cache_ok E st \<Longrightarrow> cache_ok E st'"
    and "\<exists>evs. trace st' = trace st @ GetBuildInfo job n # evs"
proof -
  define st1 where "st1 = log_event (GetBuildInfo job n) st"
  have t1: "trace st1 = trace st @ [GetBuildInfo job n]"
    and c1: "causes_cache st1 = causes_cache st"
    by (simp_all add: st1_def log_event_def)
  have f1: "build_fetches (trace st1) = build_fetches (trace st) @ [n]"
    by (simp add: t1 build_fetches_append)
  have k1: "cache_ok E st1 = cache_ok E st" by (simp add: cache_ok_def c1)
  have "st' = st1 \<or> (\<exists>bi r2. get_build_fail_cause E bi job n st1 = (r2, st'))"
    using assms unfolding loop_body_def get_build_info_eq st1_def[symmetric]
    by (auto split: option.splits sum.splits prod.splits if_splits)
  then show "build_fetches (trace st') = build_fetches (trace st) @ [n]"
    and "cache_ok E st \<Longrightarrow> cache_ok E st'"
    and "\<exists>evs. trace st' = trace st @ GetBuildInfo job n # evs"
    using f1 k1 t1 get_build_fail_cause_state[of E _ job n st1 _ st'] by auto
qed

lemma loop_body_Inr:
  assumes "loop_body E job T s n statuses st = (Inr (jt, statuses'), st')"
  shows "\<exists>bi. build_infos E job n = Some bi \<and> jt = fromtimestamp_ms (timestamp bi)"
  using assms unfolding loop_body_def get_build_info_eq
  by (auto split: option.splits sum.splits prod.splits if_splits)


lemma walk_step:
  "T < jt \<Longrightarrow> walk E job T s n jt statuses st =
     (case loop_body E job T s n statuses st of
        (Inl e, st1) \<Rightarrow> Some (Inl e, st1)
      | (Inr (jt1, statuses1), st1) \<Rightarrow> walk E job T s (n - 1) jt1 statuses1 st1)"
  by (subst walk.simps) simp

lemma walk_abort:
  assumes fail: "\<And>statuses0 st0. \<exists>e st1. loop_body E job T s n statuses0 st0 = (Inl e, st1)"
  shows "T < jt \<Longrightarrow> n \<le> n0 \<Longrightarrow>
     (\<forall>k bi. n < k \<and> k \<le> n0 \<and> build_infos E job k = Some bi \<longrightarrow>
        T < fromtimestamp_ms (timestamp bi)) \<Longrightarrow>
     \<exists>e st'. walk E job T s n0 jt statuses st = Some (Inl e, st')
       \<and> (\<forall>k. k < n \<longrightarrow> k \<in> set (build_fetches (trace st')) \<longrightarrow>
              k \<in> set (build_fetches (trace st)))"
proof (induction "nat (n0 - n)" arbitrary: n0 jt statuses st)
  case 0
  then have eq: "n0 = n" by simp
  from fail obtain e st1 where lb: "loop_body E job T s n statuses st = (Inl e, st1)" by blast
  have w: "walk E job T s n0 jt statuses st = Some (Inl e, st1)"
    using "0.prems"(1) lb by (simp add: walk_step eq)
  have "build_fetches (trace st1) = build_fetches (trace st) @ [n]"
    using loop_body_state(1)[OF lb] .
  then show ?case using w by auto
next
  case (Suc d)
  then have gt: "n < n0" by simp
  obtain r st1 where lb: "loop_body E job T s n0 statuses st = (r, st1)"
    by (cases "loop_body E job T s n0 statuses st")
  have f: "build_fetches (trace st1) = build_fetches (trace st) @ [n0]"
    using loop_body_state(1)[OF lb] .
  show ?case
  proof (cases r)
    case (Inl e)
    then have "walk E job T s n0 jt statuses st = Some (Inl e, st1)"
      using Suc.prems(1) lb by (simp add: walk_step)
    then show ?thesis using f gt by auto
  next
    case (Inr p)
    obtain jt1 statuses1 where p: "p = (jt1, statuses1)" by (cases p)
    from loop_body_Inr[of E job T s n0 statuses st jt1 statuses1 st1] lb Inr p
    obtain bi where bi: "build_infos E job n0 = Some bi" "jt1 = fromtimestamp_ms (timestamp bi)"
      by auto
    have jt1: "T < jt1" using Suc.prems(3) gt bi by blast
    have w: "walk E job T s n0 jt statuses st = walk E job T s (n0 - 1) jt1 statuses1 st1"
      using Suc.prems(1) lb Inr p by (simp add: walk_step)
    have d: "d = nat (n0 - 1 - n)" using Suc.hyps(2) by simp
    have le: "n \<le> n0 - 1" using gt by simp
    have inw: "\<forall>k bi. n < k \<and> k \<le> n0 - 1 \<and> build_infos E job k = Some bi \<longrightarrow>
        T < fromtimestamp_ms (timestamp bi)"
    proof (intro allI impI)
      fix k bi'
      assume "n < k \<and> k \<le> n0 - 1 \<and> build_infos E job k = Some bi'"
      then have "n < k \<and> k \<le> n0 \<and> build_infos E job k = Some bi'" by simp
      then show "T < fromtimestamp_ms (timestamp bi')" using Suc.prems(3) by blast
    qed
    from Suc.hyps(1)[OF d jt1 le inw, where statuses = statuses1 and st = st1]
    obtain e st' where r: "walk E job T s (n0 - 1) jt1 statuses1 st1 = Some (Inl e, st')"
      and k: "\<forall>k. k < n \<longrightarrow> k \<in> set (build_fetches (trace st')) \<longrightarrow>
              k \<in> set (build_fetches (trace st1))"
      by blast
    show ?thesis using r k w f gt by auto
  qed
qed

lemma timedelta_pos: "0 < h \<Longrightarrow> now E - timedelta_hours h < now E"
  by (simp add: timedelta_hours_def)

lemma display_aborts:
  assumes j: "job_info E job = Some (Some n0)"
    and w: "walk E job (now E - timedelta_hours h) s n0 (now E) []
              (log_event (GetJobInfo job) init_state) = Some (Inl e, st')"
  shows "display_builds_for_job E job h s init_state = Some (Inl e, st')"
  using j w by (simp add: display_builds_for_job_def Let_def)

lemma loop_body_nolog:
  assumes "build_infos E job n = Some bi"
    and "T \<le> fromtimestamp_ms (timestamp bi)"
    and "result bi \<noteq> ''SUCCESS''"
    and "console_output E job n = None"
  shows "loop_body E job T s n statuses st =
     (Inl (LogFetchError job n),
      log_event (GetConsoleOutput job n) (log_event (GetBuildInfo job n) st))"
  using assms
  by (simp add: loop_body_def get_build_info_eq is_build_included_def
      get_build_fail_cause_def search_for_cause_def Let_def)

lemma mk_build_time: "fromtimestamp_ms (timestamp (mk_build h r)) = timedelta_hours h"
  by (simp add: mk_build_def hours_ms_def fromtimestamp_ms_def timedelta_hours_def)

lemma mk_env_now: "now (mk_env lb bs ls src) = timedelta_hours 100"
  by (simp add: mk_env_def)

section \<open>Which builds the loop records\<close>

lemma update_fresh: "k \<notin> fst ` set al \<Longrightarrow> AList.update k v al = al @ [(k, v)]"
  by (induction al) auto

lemma loop_body_decides:
  assumes "loop_body E job T s n statuses st = (Inr (jt, statuses'), st')"
  shows "\<exists>b. build_infos E job n = Some b \<and> jt = fromtimestamp_ms (timestamp b) \<and>
     (if is_build_included (b\<lparr>timestamp := fromtimestamp_ms (timestamp b)\<rparr>) T s
      then \<exists>ci. statuses' =
             AList.update (job, n)
               \<lparr>bs_job_name = job,
                bs_build_info = b\<lparr>timestamp := fromtimestamp_ms (timestamp b)\<rparr>,
                bs_build_number = n, bs_cause_info = ci\<rparr> statuses
      else statuses' = statuses \<and> st' = log_event (GetBuildInfo job n) st)"
  using assms unfolding loop_body_def get_build_info_eq
  by (auto split: option.splits sum.splits prod.splits if_splits)

lemma loop_body_keeps_inv:
  assumes lb: "loop_body E job T s n statuses st = (Inr (jt, statuses'), st')"
    and m: "map (bs_build_number \<circ> snd) statuses =
              filter (build_included E job T s) (build_fetches (trace st))"
    and k: "\<forall>k \<in> fst ` set statuses. n < snd k"
  shows "map (bs_build_number \<circ> snd) statuses' =
              filter (build_included E job T s) (build_fetches (trace st'))"
    and "\<forall>k \<in> fst ` set statuses'. n - 1 < snd k"
proof -
  from loop_body_decides[OF lb] obtain b where b: "build_infos E job n = Some b"
    and d: "if is_build_included (b\<lparr>timestamp := fromtimestamp_ms (timestamp b)\<rparr>) T s
      then \<exists>ci. statuses' =
             AList.update (job, n)
               \<lparr>bs_job_name = job,
                bs_build_info = b\<lparr>timestamp := fromtimestamp_ms (timestamp b)\<rparr>,
                bs_build_number = n, bs_cause_info = ci\<rparr> statuses
      else statuses' = statuses \<and> st' = log_event (GetBuildInfo job n) st"
    by blast
  have f: "build_fetches (trace st') = build_fetches (trace st) @ [n]"
    using loop_body_state(1)[OF lb] .
  have inc: "build_included E job T s n =
      is_build_included (b\<lparr>timestamp := fromtimestamp_ms (timestamp b)\<rparr>) T s"
    by (simp add: build_included_def b)
  have fresh: "(job, n) \<notin> fst ` set statuses" using k by force
  show "map (bs_build_number \<circ> snd) statuses' =
              filter (build_included E job T s) (build_fetches (trace st'))"
  proof (cases "is_build_included (b\<lparr>timestamp := fromtimestamp_ms (timestamp b)\<rparr>) T s")
    case True
    then obtain ci where "statuses' = statuses @ [((job, n),
               \<lparr>bs_job_name = job,
                bs_build_info = b\<lparr>timestamp := fromtimestamp_ms (timestamp b)\<rparr>,
                bs_build_number = n, bs_cause_info = ci\<rparr>)]"
      using d update_fresh[OF fresh] by auto
    then show ?thesis using True inc m f by simp
  next
    case False
    then show ?thesis using d inc m f by simp
  qed
  show "\<forall>k \<in> fst ` set statuses'. n - 1 < snd k"
  proof (cases "is_build_included (b\<lparr>timestamp := fromtimestamp_ms (timestamp b)\<rparr>) T s")
    case True
    then obtain ci where "statuses' = statuses @ [((job, n),
               \<lparr>bs_job_name = job,
                bs_build_info = b\<lparr>timestamp := fromtimestamp_ms (timestamp b)\<rparr>,
                bs_build_number = n, bs_cause_info = ci\<rparr>)]"
      using d update_fresh[OF fresh] by auto
    then show ?thesis using k by force
  next
    case False
    then show ?thesis using d k by force
  qed
qed

lemma walk_included_aux:
  assumes "walk E job T s n jt statuses st = Some y"
  shows "\<forall>statuses' st'. y = (Inr statuses', st') \<longrightarrow>
        map (bs_build_number \<circ> snd) statuses =
              filter (build_included E job T s) (build_fetches (trace st)) \<longrightarrow>
        (\<forall>k \<in> fst ` set statuses. n < snd k) \<longrightarrow>
        map (bs_build_number \<circ> snd) statuses' =
              filter (build_included E job T s) (build_fetches (trace st'))"
proof (rule walk.raw_induct[where P = "\<lambda>E job T s n jt statuses st y.
     \<forall>statuses' st'. y = (Inr statuses', st') \<longrightarrow>
        map (bs_build_number \<circ> snd) statuses =
              filter (build_included E job T s) (build_fetches (trace st)) \<longrightarrow>
        (\<forall>k \<in> fst ` set statuses. n < snd k) \<longrightarrow>
        map (bs_build_number \<circ> snd) statuses' =
              filter (build_included E job T s) (build_fetches (trace st'))", OF _ assms])
  fix w E job T s n jt statuses st y
  assume IH: "\<And>E job T s n jt statuses st y. w E job T s n jt statuses st = Some y \<Longrightarrow>
     \<forall>statuses' st'. y = (Inr statuses', st') \<longrightarrow>
        map (bs_build_number \<circ> snd) statuses =
              filter (build_included E job T s) (build_fetches (trace st)) \<longrightarrow>
        (\<forall>k \<in> fst ` set statuses. n < snd k) \<longrightarrow>
        map (bs_build_number \<circ> snd) statuses' =
              filter (build_included E job T s) (build_fetches (trace st'))"
    and prem: "(if T < jt
      then case loop_body E job T s n statuses st of
           (Inl e, st1) \<Rightarrow> Some (Inl e, st1)
           | (Inr (job_time1, statuses1), st1) \<Rightarrow>
               w E job T s (n - 1) job_time1 statuses1 st1
      else Some (Inr statuses, st)) = Some y"
  show "\<forall>statuses' st'. y = (Inr statuses', st') \<longrightarrow>
        map (bs_build_number \<circ> snd) statuses =
              filter (build_included E job T s) (build_fetches (trace st)) \<longrightarrow>
        (\<forall>k \<in> fst ` set statuses. n < snd k) \<longrightarrow>
        map (bs_build_number \<circ> snd) statuses' =
              filter (build_included E job T s) (build_fetches (trace st'))"
  proof (intro allI impI)
    fix statuses' st'
    assume y: "y = (Inr statuses', st')"
      and m: "map (bs_build_number \<circ> snd) statuses =
              filter (build_included E job T s) (build_fetches (trace st))"
      and k: "\<forall>k \<in> fst ` set statuses. n < snd k"
    show "map (bs_build_number \<circ> snd) statuses' =
              filter (build_included E job T s) (build_fetches (trace st'))"
    proof (cases "T < jt")
      case False
      then show ?thesis using prem y m by simp
    next
      case True
      obtain r st1 where lb: "loop_body E job T s n statuses st = (r, st1)"
        by (cases "loop_body E job T s n statuses st")
      show ?thesis
      proof (cases r)
        case (Inl e)
        then show ?thesis using prem True lb y by simp
      next
        case (Inr p)
        obtain jt1 statuses1 where p: "p = (jt1, statuses1)" by (cases p)
        have lb': "loop_body E job T s n statuses st = (Inr (jt1, statuses1), st1)"
          using lb Inr p by simp
        have w: "w E job T s (n - 1) jt1 statuses1 st1 = Some y"
          using prem True lb' by simp
        from IH[OF w] y loop_body_keeps_inv[OF lb' m k]
        show ?thesis by blast
      qed
    qed
  qed
qed

lemma summary_rows_numbers:
  "summary_rows C statuses = Inr rows \<Longrightarrow>
     map row_build_no rows = map (bs_build_number \<circ> snd) statuses"
proof (induction statuses arbitrary: rows)
  case Nil
  then show ?case by simp
next
  case (Cons a statuses)
  obtain k bd where a: "a = (k, bd)" by (cases a)
  from Cons.prems obtain rows' where r: "summary_rows C statuses = Inr rows'"
    and rows: "map row_build_no rows = bs_build_number bd # map row_build_no rows'"
    unfolding a by (auto split: sum.splits)
  show ?case using Cons.IH[OF r] rows a by simp
qed

lemma display_rows_included:
  assumes "display_builds_for_job E job h s init_state = Some (Inr (Some rows), st)"
  shows "map row_build_no rows =
     filter (build_included E job (now E - timedelta_hours h) s) (build_fetches (trace st))"
proof -
  define T where "T = now E - timedelta_hours h"
  define st1 where "st1 = log_event (GetJobInfo job) init_state"
  from assms obtain n0 statuses st2 C where
    w: "walk E job T s n0 (now E) [] st1 = Some (Inr statuses, st2)"
    and g: "get_causes E st2 = (Inr C, st)"
    and sr: "summary_rows C statuses = Inr rows"
    unfolding display_builds_for_job_def display_build_summary_def Let_def
      T_def[symmetric] st1_def[symmetric]
    by (auto split: option.splits sum.splits prod.splits)
  have f1: "build_fetches (trace st1) = []"
    by (simp add: st1_def log_event_def init_state_def)
  have "map (bs_build_number \<circ> snd) statuses =
              filter (build_included E job T s) (build_fetches (trace st2))"
    using walk_included_aux[OF w] f1 by simp
  then show ?thesis
    using summary_rows_numbers[OF sr] get_causes_state(1)[OF g] unfolding T_def by simp
qed

section \<open>Runs without a readable causes.yaml\<close>

lemma get_causes_bad:
  assumes bad: "causes_file E = Missing \<or> causes_file E = Unparsable"
    and u: "unopened st"
  shows "get_causes E st = (Inl (load_error E), log_event OpenCausesFile st)"
  using bad u by (auto simp: get_causes_def unopened_def load_error_def)

lemma ended_at_open_log:
  "unopened st \<Longrightarrow> ended_at_open E (load_error E) (log_event OpenCausesFile st)"
  by (simp add: unopened_def ended_at_open_def log_event_def)

lemma unopened_log:
  "unopened st \<Longrightarrow> ev \<noteq> OpenCausesFile \<Longrightarrow> unopened (log_event ev st)"
  by (simp add: unopened_def log_event_def)

lemma search_for_cause_bad:
  assumes bad: "causes_file E = Missing \<or> causes_file E = Unparsable"
    and u: "unopened st"
  shows "search_for_cause E job n st =
     (case console_output E job n of
        None \<Rightarrow> (Inl (LogFetchError job n), log_event (GetConsoleOutput job n) st)
      | Some out \<Rightarrow> (Inl (load_error E),
          log_event OpenCausesFile (log_event (GetConsoleOutput job n) st)))"
proof -
  have u1: "unopened (log_event (GetConsoleOutput job n) st)"
    using u by (simp add: unopened_log)
  show ?thesis
    unfolding search_for_cause_def Let_def get_causes_bad[OF bad u1]
    by (simp split: option.splits)
qed

lemma loop_body_bad:
  assumes bad: "causes_file E = Missing \<or> causes_file E = Unparsable"
    and u: "unopened st"
    and lb: "loop_body E job T s n statuses st = (r, st')"
  shows "case r of
           Inr p \<Rightarrow> unopened st'
         | Inl e \<Rightarrow> (unopened st' \<and> e \<noteq> load_error E) \<or> ended_at_open E e st'"
proof -
  define st1 where "st1 = log_event (GetBuildInfo job n) st"
  have u1: "unopened st1" using u by (simp add: st1_def unopened_log)
  have u2: "unopened (log_event (GetConsoleOutput job n) st1)"
    using u1 by (simp add: unopened_log)
  have ne: "BuildNotFound job n \<noteq> load_error E" "LogFetchError job n \<noteq> load_error E"
    by (simp_all add: load_error_def)
  have sc: "search_for_cause E job n st1 =
     (case console_output E job n of
        None \<Rightarrow> (Inl (LogFetchError job n), log_event (GetConsoleOutput job n) st1)
      | Some out \<Rightarrow> (Inl (load_error E),
          log_event OpenCausesFile (log_event (GetConsoleOutput job n) st1)))"
    using search_for_cause_bad[OF bad u1] .
  show ?thesis
    using lb u1 u2 ne ended_at_open_log[OF u2, of E]
    unfolding loop_body_def get_build_info_eq st1_def[symmetric]
    by (auto simp: get_build_fail_cause_def sc split: option.splits if_splits)
qed

lemma walk_bad:
  assumes w: "walk E job T s n jt statuses st = Some y"
  shows "(causes_file E = Missing \<or> causes_file E = Unparsable) \<longrightarrow> unopened st \<longrightarrow>
     (case fst y of
        Inr p \<Rightarrow> unopened (snd y)
      | Inl e \<Rightarrow> (unopened (snd y) \<and> e \<noteq> load_error E) \<or> ended_at_open E e (snd y))"
proof (rule walk.raw_induct[where P = "\<lambda>E job T s n jt statuses st y.
     (causes_file E = Missing \<or> causes_file E = Unparsable) \<longrightarrow> unopened st \<longrightarrow>
     (case fst y of
        Inr p \<Rightarrow> unopened (snd y)
      | Inl e \<Rightarrow> (unopened (snd y) \<and> e \<noteq> load_error E) \<or> ended_at_open E e (snd y))",
      OF _ w])
  fix w E job T s n jt statuses st y
  assume IH: "\<And>E job T s n jt statuses st y. w E job T s n jt statuses st = Some y \<Longrightarrow>
     (causes_file E = Missing \<or> causes_file E = Unparsable) \<longrightarrow> unopened st \<longrightarrow>
     (case fst y of
        Inr p \<Rightarrow> unopened (snd y)
      | Inl e \<Rightarrow> (unopened (snd y) \<and> e \<noteq> load_error E) \<or> ended_at_open E e (snd y))"
    and prem: "(if T < jt
      then case loop_body E job T s n statuses st of
           (Inl e, st1) \<Rightarrow> Some (Inl e, st1)
           | (Inr (job_time1, statuses1), st1) \<Rightarrow>
               w E job T s (n - 1) job_time1 statuses1 st1
      else Some (Inr statuses, st)) = Some y"
  show "(causes_file E = Missing \<or> causes_file E = Unparsable) \<longrightarrow> unopened st \<longrightarrow>
     (case fst y of
        Inr p \<Rightarrow> unopened (snd y)
      | Inl e \<Rightarrow> (unopened (snd y) \<and> e \<noteq> load_error E) \<or> ended_at_open E e (snd y))"
  proof (intro impI)
    assume bad: "causes_file E = Missing \<or> causes_file E = Unparsable" and u: "unopened st"
    show "case fst y of
        Inr p \<Rightarrow> unopened (snd y)
      | Inl e \<Rightarrow> (unopened (snd y) \<and> e \<noteq> load_error E) \<or> ended_at_open E e (snd y)"
    proof (cases "T < jt")
      case False
      then show ?thesis using prem u by auto
    next
      case True
      obtain r st1 where lb: "loop_body E job T s n statuses st = (r, st1)"
        by (cases "loop_body E job T s n statuses st")
      note b = loop_body_bad[OF bad u lb]
      show ?thesis
      proof (cases r)
        case (Inl e)
        then have "y = (Inl e, st1)" using prem True lb by simp
        then show ?thesis using b Inl by simp
      next
        case (Inr p)
        obtain jt1 statuses1 where p: "p = (jt1, statuses1)" by (cases p)
        have w: "w E job T s (n - 1) jt1 statuses1 st1 = Some y"
          using prem True lb Inr p by simp
        have u1: "unopened st1" using b Inr by simp
        from IH[OF w] bad u1 show ?thesis by simp
      qed
    qed
  qed
qed

lemma walk_trace:
  assumes w: "walk E job T s n jt statuses st = Some y"
  shows "\<exists>evs. trace (snd y) = trace st @ evs"
proof (rule walk.raw_induct[where P = "\<lambda>E job T s n jt statuses st y.
     \<exists>evs. trace (snd y) = trace st @ evs", OF _ w])
  fix w E job T s n jt statuses st y
  assume IH: "\<And>E job T s n jt statuses st y. w E job T s n jt statuses st = Some y \<Longrightarrow>
     \<exists>evs. trace (snd y) = trace st @ evs"
    and prem: "(if T < jt
      then case loop_body E job T s n statuses st of
           (Inl e, st1) \<Rightarrow> Some (Inl e, st1)
           | (Inr (job_time1, statuses1), st1) \<Rightarrow>
               w E job T s (n - 1) job_time1 statuses1 st1
      else Some (Inr statuses, st)) = Some y"
  show "\<exists>evs. trace (snd y) = trace st @ evs"
  proof (cases "T < jt")
    case False
    then show ?thesis using prem by auto
  next
    case True
    obtain r st1 where lb: "loop_body E job T s n statuses st = (r, st1)"
      by (cases "loop_body E job T s n statuses st")
    from loop_body_state(3)[OF lb] obtain evs1 where
      t1: "trace st1 = trace st @ GetBuildInfo job n # evs1" by blast
    show ?thesis
    proof (cases r)
      case (Inl e)
      then have "y = (Inl e, st1)" using prem True lb by simp
      then show ?thesis using t1 by simp
    next
      case (Inr p)
      obtain jt1 statuses1 where p: "p = (jt1, statuses1)" by (cases p)
      have w: "w E job T s (n - 1) jt1 statuses1 st1 = Some y"
        using prem True lb Inr p by simp
      from IH[OF w] t1 show ?thesis by auto
    qed
  qed
qed

lemma walk_first_fetch:
  assumes w: "walk E job T s n jt statuses st = Some y" and gt: "T < jt"
  shows "\<exists>evs. trace (snd y) = trace st @ GetBuildInfo job n # evs"
proof -
  obtain r st1 where lb: "loop_body E job T s n statuses st = (r, st1)"
    by (cases "loop_body E job T s n statuses st")
  from loop_body_state(3)[OF lb] obtain evs1 where
    t1: "trace st1 = trace st @ GetBuildInfo job n # evs1" by blast
  show ?thesis
  proof (cases r)
    case (Inl e)
    then have "y = (Inl e, st1)" using w gt lb by (simp add: walk_step)
    then show ?thesis using t1 by simp
  next
    case (Inr p)
    obtain jt1 statuses1 where p: "p = (jt1, statuses1)" by (cases p)
    have w: "walk E job T s (n - 1) jt1 statuses1 st1 = Some y"
      using w gt lb Inr p by (simp add: walk_step)
    from walk_trace[OF w] t1 show ?thesis by auto
  qed
qed

lemma display_bad_general:
  assumes bad: "causes_file E = Missing \<or> causes_file E = Unparsable"
    and run: "display_builds_for_job E job h s init_state = Some (r, st)"
  shows "(\<forall>rows. r \<noteq> Inr (Some rows))
      \<and> (\<exists>evs. trace st = GetJobInfo job # evs
           \<and> (OpenCausesFile \<in> set evs \<longrightarrow>
                (\<exists>evs'. evs = evs' @ [OpenCausesFile] \<and> OpenCausesFile \<notin> set evs')))
      \<and> (r = Inl (load_error E)) = (OpenCausesFile \<in> set (trace st))
      \<and> (\<forall>n0. job_info E job = Some (Some n0) \<and> 0 < h \<longrightarrow>
            (\<exists>evs. trace st = GetJobInfo job # GetBuildInfo job n0 # evs))"
proof -
  define T where "T = now E - timedelta_hours h"
  define st1 where "st1 = log_event (GetJobInfo job) init_state"
  have t1: "trace st1 = [GetJobInfo job]"
    by (simp add: st1_def log_event_def init_state_def)
  have u1: "unopened st1"
    by (simp add: unopened_def st1_def log_event_def init_state_def)
  have ne: "JobNotFound job \<noteq> load_error E" by (simp add: load_error_def)
  consider (nojob) "job_info E job = None" | (nobuild) "job_info E job = Some None"
    | (build) n0 where "job_info E job = Some (Some n0)"
    by (cases "job_info E job") auto
  then show ?thesis
  proof cases
    case nojob
    then have "r = Inl (JobNotFound job)" "st = st1"
      using run by (simp_all add: display_builds_for_job_def Let_def st1_def)
    then show ?thesis using t1 ne nojob by simp
  next
    case nobuild
    then have "r = Inr None" "st = st1"
      using run by (simp_all add: display_builds_for_job_def Let_def st1_def)
    then show ?thesis using t1 nobuild by simp
  next
    case build
    from run build obtain rw st2 where
      w: "walk E job T s n0 (now E) [] st1 = Some (rw, st2)"
      unfolding display_builds_for_job_def Let_def T_def[symmetric] st1_def[symmetric]
      by (auto split: option.splits)
    from walk_trace[OF w] t1 obtain evs2 where t2: "trace st2 = GetJobInfo job # evs2"
      by auto
    have first: "0 < h \<Longrightarrow> \<exists>evs. trace st2 = GetJobInfo job # GetBuildInfo job n0 # evs"
    proof -
      assume "0 < h"
      then have "T < now E" unfolding T_def by (rule timedelta_pos)
      from walk_first_fetch[OF w this] t1 show ?thesis by simp
    qed
    from walk_bad[OF w] bad u1
    have b: "case rw of
        Inr p \<Rightarrow> unopened st2
      | Inl e \<Rightarrow> (unopened st2 \<and> e \<noteq> load_error E) \<or> ended_at_open E e st2"
      by (cases rw) simp_all
    show ?thesis
    proof (cases rw)
      case (Inl e)
      then have rs: "r = Inl e" "st = st2"
        using run build w
        unfolding display_builds_for_job_def Let_def T_def[symmetric] st1_def[symmetric]
        by simp_all
      from b Inl have "(unopened st2 \<and> e \<noteq> load_error E) \<or> ended_at_open E e st2" by simp
      then show ?thesis
      proof
        assume "unopened st2 \<and> e \<noteq> load_error E"
        then show ?thesis using rs t2 first build by (auto simp: unopened_def)
      next
        assume "ended_at_open E e st2"
        then obtain evs where e: "e = load_error E"
          and t: "trace st2 = evs @ [OpenCausesFile]" and n: "OpenCausesFile \<notin> set evs"
          by (auto simp: ended_at_open_def)
        from t t2 obtain evs' where ev: "evs = GetJobInfo job # evs'"
          by (cases evs) auto
        have "evs2 = evs' @ [OpenCausesFile]" using t t2 ev by simp
        moreover have "OpenCausesFile \<notin> set evs'" using n ev by simp
        ultimately show ?thesis using rs t2 first build e by auto
      qed
    next
      case (Inr statuses)
      then have u2: "unopened st2" using b by simp
      have ds: "display_build_summary E statuses st2 =
          (Inl (load_error E), log_event OpenCausesFile st2)"
        by (simp add: display_build_summary_def get_causes_bad[OF bad u2])
      have rs: "r = Inl (load_error E)" "st = log_event OpenCausesFile st2"
        using run build w Inr ds
        unfolding display_builds_for_job_def Let_def T_def[symmetric] st1_def[symmetric]
        by simp_all
      have t: "trace st = GetJobInfo job # evs2 @ [OpenCausesFile]"
        using rs t2 by (simp add: log_event_def)
      have n: "OpenCausesFile \<notin> set evs2" using u2 t2 by (simp add: unopened_def)
      have f: "0 < h \<Longrightarrow> \<exists>evs. trace st = GetJobInfo job # GetBuildInfo job n0 # evs"
        using first rs by (auto simp: log_event_def)
      show ?thesis using rs t n f build by auto
    qed
  qed
qed

lemma display_bad_first_build:
  assumes bad: "causes_file E = Missing \<or> causes_file E = Unparsable"
    and j: "job_info E job = Some (Some n0)"
    and h: "0 < h"
    and b: "build_infos E job n0 = Some b"
    and inw: "now E - timedelta_hours h \<le> fromtimestamp_ms (timestamp b)"
    and ns: "result b \<noteq> ''SUCCESS''"
    and out: "console_output E job n0 = Some out"
  shows "display_builds_for_job E job h s init_state
          = Some (Inl (load_error E),
                  \<lparr>trace = [GetJobInfo job, GetBuildInfo job n0, GetConsoleOutput job n0,
                            OpenCausesFile],
                   causes_cache = None\<rparr>)"
proof -
  define T where "T = now E - timedelta_hours h"
  define st1 where "st1 = log_event (GetJobInfo job) init_state"
  define st2 where "st2 = log_event (GetBuildInfo job n0) st1"
  have u2: "unopened st2"
    by (simp add: unopened_def st2_def st1_def log_event_def init_state_def)
  have gt: "T < now E" unfolding T_def using h by (rule timedelta_pos)
  have inc: "is_build_included (b\<lparr>timestamp := fromtimestamp_ms (timestamp b)\<rparr>) T s"
    using inw ns by (simp add: is_build_included_def T_def)
  have lb: "loop_body E job T s n0 [] st1 =
      (Inl (load_error E), log_event OpenCausesFile (log_event (GetConsoleOutput job n0) st2))"
    unfolding loop_body_def get_build_info_eq st2_def[symmetric]
    using b inc ns out
    by (simp add: get_build_fail_cause_def search_for_cause_bad[OF bad u2])
  have w: "walk E job T s n0 (now E) [] st1 =
      Some (Inl (load_error E),
            log_event OpenCausesFile (log_event (GetConsoleOutput job n0) st2))"
    using gt lb by (simp add: walk_step)
  have "display_builds_for_job E job h s init_state =
      Some (Inl (load_error E),
            log_event OpenCausesFile (log_event (GetConsoleOutput job n0) st2))"
    using j w
    unfolding display_builds_for_job_def Let_def T_def[symmetric] st1_def[symmetric]
    by simp
  then show ?thesis by (simp add: st2_def st1_def log_event_def init_state_def)
qed

section \<open>Walks that reach their end\<close>












section \<open>The claims\<close>

text \<open>
  C2. For every build that the loop fetches, \<open>is_build_included\<close> decides whether it enters
  the report. The predicate holds exactly when the timestamp of the build is not before the
  cutoff and, if the result is SUCCESS, successful builds were asked for. A pass of the loop
  that returns has stored the build in \<open>build_statuses\<close> under its own key if the predicate
  holds for it, and has left \<open>build_statuses\<close> as it was if not. So the rows of a report are,
  in the order of the fetches, the fetched builds for which the predicate holds: a fetched
  build at or after the cutoff whose result is not SUCCESS has a row whatever the flag is,
  a fetched successful build has a row only with the flag, and a fetched build before the
  cutoff has none. A build that the loop never fetches has no row.
\<close>

theorem fetched_build_reported_iff_is_build_included:
  "is_build_included bi T s = (T \<le> timestamp bi \<and> (result bi = ''SUCCESS'' \<longrightarrow> s))
   \<and> (loop_body E job T s n statuses st = (Inr (jt, statuses'), st') \<longrightarrow>
        (\<exists>b. build_infos E job n = Some b
           \<and> (if is_build_included (b\<lparr>timestamp := fromtimestamp_ms (timestamp b)\<rparr>) T s
               then \<exists>ci. statuses' =
                      AList.update (job, n)
                        \<lparr>bs_job_name = job,
                         bs_build_info = b\<lparr>timestamp := fromtimestamp_ms (timestamp b)\<rparr>,
                         bs_build_number = n, bs_cause_info = ci\<rparr> statuses
               else statuses' = statuses)))
   \<and> (display_builds_for_job E job h s init_state = Some (Inr (Some rows), st'') \<longrightarrow>
        map row_build_no rows =
          filter (build_included E job (now E - timedelta_hours h) s)
            (build_fetches (trace st''))
        \<and> (\<forall>k b. k \<in> set (build_fetches (trace st'')) \<and> build_infos E job k = Some b \<longrightarrow>
              (k \<in> row_build_no ` set rows) =
                (now E - timedelta_hours h \<le> fromtimestamp_ms (timestamp b)
                 \<and> (result b = ''SUCCESS'' \<longrightarrow> s))))"
proof (intro conjI impI allI)
  show "is_build_included bi T s = (T \<le> timestamp bi \<and> (result bi = ''SUCCESS'' \<longrightarrow> s))"
    by (auto simp: is_build_included_def)
next
  assume lb: "loop_body E job T s n statuses st = (Inr (jt, statuses'), st')"
  from loop_body_decides[OF lb]
  show "\<exists>b. build_infos E job n = Some b
           \<and> (if is_build_included (b\<lparr>timestamp := fromtimestamp_ms (timestamp b)\<rparr>) T s
               then \<exists>ci. statuses' =
                      AList.update (job, n)
                        \<lparr>bs_job_name = job,
                         bs_build_info = b\<lparr>timestamp := fromtimestamp_ms (timestamp b)\<rparr>,
                         bs_build_number = n, bs_cause_info = ci\<rparr> statuses
               else statuses' = statuses)"
    by (auto split: if_splits)
next
  assume run: "display_builds_for_job E job h s init_state = Some (Inr (Some rows), st'')"
  show "map row_build_no rows =
          filter (build_included E job (now E - timedelta_hours h) s)
            (build_fetches (trace st''))"
    using display_rows_included[OF run] .
next
  fix k b
  assume run: "display_builds_for_job E job h s init_state = Some (Inr (Some rows), st'')"
    and kb: "k \<in> set (build_fetches (trace st'')) \<and> build_infos E job k = Some b"
  have "row_build_no ` set rows = set (map row_build_no rows)" by simp
  also have "\<dots> = set (filter (build_included E job (now E - timedelta_hours h) s)
            (build_fetches (trace st'')))"
    using display_rows_included[OF run] by simp
  finally have "(k \<in> row_build_no ` set rows) =
      build_included E job (now E - timedelta_hours h) s k"
    using kb by simp
  then show "(k \<in> row_build_no ` set rows) =
                (now E - timedelta_hours h \<le> fromtimestamp_ms (timestamp b)
                 \<and> (result b = ''SUCCESS'' \<longrightarrow> s))"
    using kb by (auto simp: build_included_def is_build_included_def)
qed

theorem fetched_build_reported_iff_is_build_included_witness:
  "(\<exists>rows st. display_builds_for_job spec_env ''job'' 24 False init_state
        = Some (Inr (Some rows), st)
      \<and> build_fetches (trace st) = [50, 49, 48]
      \<and> map row_build_no rows = [49])
   \<and> (\<exists>rows st. display_builds_for_job spec_env ''job'' 24 True init_state
        = Some (Inr (Some rows), st)
      \<and> build_fetches (trace st) = [50, 49, 48]
      \<and> map row_build_no rows = [50, 49])
   \<and> (\<exists>jt st. loop_body spec_env ''job'' (now spec_env - timedelta_hours 24) False 50 []
                  (log_event (GetJobInfo ''job'') init_state) = (Inr (jt, []), st))
   \<and> build_infos spec_env ''job'' 50 = Some (mk_build 100 ''SUCCESS'')
   \<and> build_infos spec_env ''job'' 49 = Some (mk_build 98 ''FAILURE'')
   \<and> build_infos spec_env ''job'' 48 = Some (mk_build 60 ''FAILURE'')"
proof -
  define row49 where "row49 =
    \<lparr>row_job_name = ''job'', row_build_no = 49, row_status = ''FAILURE'',
     row_cause = ''oom'' @ [CHR 0x0A] @ ''trace'',
     row_bug_urls = ''http://bugs/1'' @ [CHR 0x0A],
     row_build_url = ''http://ci/b'', row_build_info = []\<rparr>"
  define row50 where "row50 =
    \<lparr>row_job_name = ''job'', row_build_no = 50, row_status = ''SUCCESS'',
     row_cause = [], row_bug_urls = [],
     row_build_url = ''http://ci/b'', row_build_info = []\<rparr>"
  define stf where "stf =
    \<lparr>trace = [GetJobInfo ''job'', GetBuildInfo ''job'' 50, GetBuildInfo ''job'' 49,
       GetConsoleOutput ''job'' 49, OpenCausesFile, GetBuildInfo ''job'' 48],
     causes_cache = Some ex_causes\<rparr>"
  have runF: "display_builds_for_job spec_env ''job'' 24 False init_state
      = Some (Inr (Some [row49]), stf)"
    unfolding row49_def stf_def by code_simp
  have runT: "display_builds_for_job spec_env ''job'' 24 True init_state
      = Some (Inr (Some [row50, row49]), stf)"
    unfolding row49_def row50_def stf_def by code_simp
  have lb: "loop_body spec_env ''job'' (now spec_env - timedelta_hours 24) False 50 []
      (log_event (GetJobInfo ''job'') init_state)
      = (Inr (360000000000, []),
         \<lparr>trace = [GetJobInfo ''job'', GetBuildInfo ''job'' 50], causes_cache = None\<rparr>)"
    by code_simp
  have f: "build_fetches (trace stf) = [50, 49, 48]" by (simp add: stf_def)
  have b50: "build_infos spec_env ''job'' 50 = Some (mk_build 100 ''SUCCESS'')"
    and b49: "build_infos spec_env ''job'' 49 = Some (mk_build 98 ''FAILURE'')"
    and b48: "build_infos spec_env ''job'' 48 = Some (mk_build 60 ''FAILURE'')"
    by (simp_all add: spec_env_def mk_env_def)
  have inc: "filter (build_included spec_env ''job'' (now spec_env - timedelta_hours 24) False)
      [50, 49, 48] = [49]"
    "filter (build_included spec_env ''job'' (now spec_env - timedelta_hours 24) True)
      [50, 49, 48] = [50, 49]"
    by (simp_all add: build_included_def is_build_included_def b50 b49 b48 mk_build_def
        hours_ms_def fromtimestamp_ms_def timedelta_hours_def spec_env_def mk_env_def)
  from fetched_build_reported_iff_is_build_included[where E = spec_env and job = "''job''"
      and h = 24 and s = False and rows = "[row49]" and st'' = stf
      and T = "now spec_env - timedelta_hours 24" and n = 50 and statuses = "[]"
      and st = "log_event (GetJobInfo ''job'') init_state" and jt = 360000000000
      and statuses' = "[]"
      and st' = "\<lparr>trace = [GetJobInfo ''job'', GetBuildInfo ''job'' 50], causes_cache = None\<rparr>"]
    runF lb f inc
  have F: "map row_build_no [row49] = [49]" by simp
  from fetched_build_reported_iff_is_build_included[where E = spec_env and job = "''job''"
      and h = 24 and s = True and rows = "[row50, row49]" and st'' = stf]
    runT f inc
  have T: "map row_build_no [row50, row49] = [50, 49]" by simp
  show ?thesis using runF runT lb f F T b50 b49 b48 by simp
qed

text \<open>
  C10. For a build whose result is SUCCESS, \<open>get_build_fail_cause\<close> gives the empty
  cause info and leaves the state of the run as it was: no console log is fetched and
  causes.yaml is not opened. For every other result the first thing it does is to fetch
  the console log of that build.
\<close>

theorem get_build_fail_cause_success:
  "(result bi = ''SUCCESS'' \<longrightarrow>
      get_build_fail_cause E bi job_name build_number st = (Inr EmptyStr, st)
      \<and> cause_names EmptyStr = [])
   \<and> (result bi \<noteq> ''SUCCESS'' \<longrightarrow>
      (\<exists>r st' evs. get_build_fail_cause E bi job_name build_number st = (r, st')
         \<and> trace st' = trace st @ GetConsoleOutput job_name build_number # evs))"
proof (intro conjI impI)
  assume "result bi = ''SUCCESS''"
  then show "get_build_fail_cause E bi job_name build_number st = (Inr EmptyStr, st)"
    by (simp add: get_build_fail_cause_def)
next
  show "cause_names EmptyStr = []" by simp
next
  assume ns: "result bi \<noteq> ''SUCCESS''"
  obtain r st' where s: "search_for_cause E job_name build_number st = (r, st')"
    by (cases "search_for_cause E job_name build_number st")
  have t: "\<exists>evs. trace st' = trace st @ GetConsoleOutput job_name build_number # evs"
    using s
    by (auto simp: search_for_cause_def get_causes_def log_event_def Let_def
        split: option.splits sum.splits causes_source.splits prod.splits)
  show "\<exists>r st' evs. get_build_fail_cause E bi job_name build_number st = (r, st')
         \<and> trace st' = trace st @ GetConsoleOutput job_name build_number # evs"
    using ns s t by (cases r) (auto simp: get_build_fail_cause_def)
qed

theorem get_build_fail_cause_success_witness:
  "get_build_fail_cause spec_env (mk_build 100 ''SUCCESS'') ''job'' 50 init_state
     = (Inr EmptyStr, init_state)
   \<and> (\<exists>r st' evs.
        get_build_fail_cause spec_env (mk_build 98 ''FAILURE'') ''job'' 49 init_state = (r, st')
        \<and> trace st' = trace init_state @ GetConsoleOutput ''job'' 49 # evs)"
  using get_build_fail_cause_success[where bi = "mk_build 100 ''SUCCESS''" and E = spec_env
      and job_name = "''job''" and build_number = 50 and st = init_state]
    get_build_fail_cause_success[where bi = "mk_build 98 ''FAILURE''" and E = spec_env
      and job_name = "''job''" and build_number = 49 and st = init_state]
  by (simp add: mk_build_def)


text \<open>
  C4. Whatever the console log and the cause dict are, a result of \<open>search_for_cause\<close>
  holds no name twice and holds only keys of the cause dict; a cause appears once even when
  several of its patterns and strings match. A result is returned whenever \<open>re.search\<close>
  accepts every pattern of the dict.
\<close>

theorem search_for_cause_distinct_subset:
  assumes "console_output E job_name number = Some L"
    and "causes_file E = Parsed C"
    and "cache_ok E st"
  shows "(\<forall>res st'. search_for_cause E job_name number st = (Inr res, st') \<longrightarrow>
            distinct res \<and> set res \<subseteq> fst ` set C \<and> (\<forall>nm. count_list res nm \<le> 1))
         \<and> (patterns_ok E C L \<longrightarrow> (\<exists>res st'. search_for_cause E job_name number st = (Inr res, st')))"
proof (intro conjI allI impI)
  fix res st'
  assume r: "search_for_cause E job_name number st = (Inr res, st')"
  from search_for_cause_names[OF assms r]
  have d: "distinct res" and s: "set res = {nm. \<exists>cd. (nm, cd) \<in> set C \<and> cause_matches E L cd}"
    by simp_all
  show "distinct res" by (rule d)
  show "set res \<subseteq> fst ` set C" unfolding s by force
  fix nm
  show "count_list res nm \<le> 1"
    using d by (rule distinct_count_le_1)
next
  assume "patterns_ok E C L"
  from search_for_cause_returns[OF assms this]
  show "\<exists>res st'. search_for_cause E job_name number st = (Inr res, st')" .
qed

theorem search_for_cause_distinct_subset_witness:
  "\<exists>res st'. search_for_cause spec_env ''job'' 49 init_state = (Inr res, st')
      \<and> distinct res \<and> set res \<subseteq> fst ` set ex_causes \<and> (\<forall>nm. count_list res nm \<le> 1)"
  using search_for_cause_distinct_subset[OF spec_env_console_49 spec_env_causes cache_ok_init]
    spec_env_patterns_ok
  by blast

text \<open>
  C5. Each pattern is searched in the whole console output with the flag \<open>re.DOTALL\<close>
  and nothing else: when that search of a pattern of a cause succeeds, the cause is in the
  result. With the flag a dot matches the newline, so a match may run over several lines
  of the log, as the witness shows on a traceback of three lines.
\<close>

theorem regex_searches_whole_output_dotall:
  assumes "console_output E job_name number = Some L"
    and "causes_file E = Parsed C"
    and "cache_ok E st"
    and "patterns_ok E C L"
    and "(name, cd) \<in> set C"
    and "cause_re cd = Some ps"
    and "p \<in> set ps"
    and "re_search E p L [DOTALL] = Some True"
  shows "\<exists>res st'. search_for_cause E job_name number st = (Inr res, st') \<and> name \<in> set res"
proof -
  from search_for_cause_returns[OF assms(1-4)]
  obtain res st' where r: "search_for_cause E job_name number st = (Inr res, st')" by blast
  have "cause_matches E L cd"
    using assms(6-8) by (auto simp: cause_matches_def)
  then have "name \<in> set res"
    using search_for_cause_names[OF assms(1-3) r] assms(5) by blast
  then show ?thesis using r by blast
qed

theorem regex_searches_whole_output_dotall_witness:
  "(\<exists>res st'. search_for_cause multiline_env ''job'' 2 init_state = (Inr res, st')
       \<and> ''trace'' \<in> set res)
   \<and> CHR 0x0A \<in> set multiline_log
   \<and> fragment_re_search ''Traceback.*Error'' multiline_log [DOTALL] = Some True
   \<and> fragment_re_search ''Traceback.*Error'' multiline_log [] = Some False"
proof -
  have ok: "patterns_ok multiline_env
      [(''trace'', \<lparr>cause_re = Some [''Traceback.*Error''], cause_text = None,
                     bug_data = None\<rparr>)] multiline_log"
    by (simp add: patterns_ok_def multiline_re_search multiline_match)
  have m: "re_search multiline_env ''Traceback.*Error'' multiline_log [DOTALL] = Some True"
    by (simp add: multiline_re_search multiline_match)
  have nl: "CHR 0x0A \<in> set multiline_log" by (simp add: multiline_log_def)
  from regex_searches_whole_output_dotall[OF multiline_console multiline_causes cache_ok_init
      ok _ _ _ m, where name = "''trace''" and ps = "[''Traceback.*Error'']"
      and cd = "\<lparr>cause_re = Some [''Traceback.*Error''], cause_text = None, bug_data = None\<rparr>"]
  have "\<exists>res st'. search_for_cause multiline_env ''job'' 2 init_state = (Inr res, st')
       \<and> ''trace'' \<in> set res"
    by simp
  then show ?thesis using nl multiline_match multiline_no_match_without_flag by simp
qed

text \<open>
  C6. A cause with a string that occurs verbatim in the console output is in the result.
  Conversely a name is in the result only if a pattern of a cause of that name matched or
  a string of it occurs in the output character for character; a string that occurs only
  in another case does not count, as the witness shows.
\<close>

theorem literal_rules_exact_substring:
  assumes "console_output E job_name number = Some L"
    and "causes_file E = Parsed C"
    and "cache_ok E st"
    and "patterns_ok E C L"
  shows "((name, cd) \<in> set C \<and> cause_text cd = Some ts \<and> s \<in> set ts \<and> L = pre @ s @ post \<longrightarrow>
            (\<exists>res st'. search_for_cause E job_name number st = (Inr res, st') \<and> name \<in> set res))
         \<and> (\<forall>res st'. search_for_cause E job_name number st = (Inr res, st') \<and> name \<in> set res \<longrightarrow>
              (\<exists>cd'. (name, cd') \<in> set C \<and>
                 ((\<exists>ps' p. cause_re cd' = Some ps' \<and> p \<in> set ps' \<and>
                      re_search E p L [DOTALL] = Some True)
                  \<or> (\<exists>ts' s' pre' post'. cause_text cd' = Some ts' \<and> s' \<in> set ts' \<and>
                      L = pre' @ s' @ post'))))"
proof (intro conjI allI impI)
  assume a: "(name, cd) \<in> set C \<and> cause_text cd = Some ts \<and> s \<in> set ts \<and> L = pre @ s @ post"
  from search_for_cause_returns[OF assms]
  obtain res st' where r: "search_for_cause E job_name number st = (Inr res, st')" by blast
  have "str_in s L" using a str_in_iff by blast
  then have "cause_matches E L cd" using a by (auto simp: cause_matches_def)
  then have "name \<in> set res"
    using search_for_cause_names[OF assms(1-3) r] a by blast
  then show "\<exists>res st'. search_for_cause E job_name number st = (Inr res, st') \<and> name \<in> set res"
    using r by blast
next
  fix res st'
  assume b: "search_for_cause E job_name number st = (Inr res, st') \<and> name \<in> set res"
  then obtain cd' where c: "(name, cd') \<in> set C" and m: "cause_matches E L cd'"
    using search_for_cause_names[OF assms(1-3), of res st'] by blast
  from m have "(\<exists>ps' p. cause_re cd' = Some ps' \<and> p \<in> set ps' \<and>
                      re_search E p L [DOTALL] = Some True)
                  \<or> (\<exists>ts' s'. cause_text cd' = Some ts' \<and> s' \<in> set ts' \<and> str_in s' L)"
    by (auto simp: cause_matches_def split: option.splits)
  then have "(\<exists>ps' p. cause_re cd' = Some ps' \<and> p \<in> set ps' \<and>
                      re_search E p L [DOTALL] = Some True)
                  \<or> (\<exists>ts' s' pre' post'. cause_text cd' = Some ts' \<and> s' \<in> set ts' \<and>
                      L = pre' @ s' @ post')"
    unfolding str_in_iff by blast
  then show "\<exists>cd'. (name, cd') \<in> set C \<and>
                 ((\<exists>ps' p. cause_re cd' = Some ps' \<and> p \<in> set ps' \<and>
                      re_search E p L [DOTALL] = Some True)
                  \<or> (\<exists>ts' s' pre' post'. cause_text cd' = Some ts' \<and> s' \<in> set ts' \<and>
                      L = pre' @ s' @ post'))"
    using c by blast
qed

theorem literal_rules_exact_substring_witness:
  "(\<exists>res st'. search_for_cause spec_env ''job'' 49 init_state = (Inr res, st') \<and> ''oom'' \<in> set res)
   \<and> str_in ''OutOfMemoryError'' ''java.lang.OutOfMemoryError: heap''
   \<and> console_output lowercase_env ''job'' 2 = Some ''process killed; outofmemoryerror''
   \<and> fst (search_for_cause lowercase_env ''job'' 2 init_state) = Inr []"
proof -
  have mem: "(''oom'', \<lparr>cause_re = None, cause_text = Some [''OutOfMemoryError'', ''Killed''],
                bug_data = Some (Some ''http://bugs/1'')\<rparr>) \<in> set ex_causes"
    by (simp add: ex_causes_def)
  have split: "''java.lang.OutOfMemoryError: heap'' = ''java.lang.'' @ ''OutOfMemoryError'' @ '': heap''"
    by simp
  from literal_rules_exact_substring[OF spec_env_console_49 spec_env_causes cache_ok_init
      spec_env_patterns_ok,
      where name = "''oom''" and ts = "[''OutOfMemoryError'', ''Killed'']"
        and s = "''OutOfMemoryError''" and pre = "''java.lang.''" and post = "'': heap''"
        and cd = "\<lparr>cause_re = None, cause_text = Some [''OutOfMemoryError'', ''Killed''],
                bug_data = Some (Some ''http://bugs/1'')\<rparr>"] mem
  have 1: "\<exists>res st'. search_for_cause spec_env ''job'' 49 init_state = (Inr res, st') \<and> ''oom'' \<in> set res"
    by simp
  have 2: "str_in ''OutOfMemoryError'' ''java.lang.OutOfMemoryError: heap''" by code_simp
  have 3: "console_output lowercase_env ''job'' 2 = Some ''process killed; outofmemoryerror''"
    by (simp add: lowercase_env_def mk_env_def)
  show ?thesis using 1 2 3 lowercase_search by simp
qed

text \<open>
  C8, as the code has it. \<open>get_causes\<close> returns whatever the file holds and compiles no
  pattern, so a dict with an invalid regular expression loads. The pattern raises when
  \<open>search_for_cause\<close> reaches it: the search of a console output on which \<open>re.search\<close>
  rejects a pattern of the dict ends with that error, each time it is run.
\<close>

theorem invalid_regex_loads_and_raises_in_search:
  "(causes_file E = Parsed C \<and> cache_ok E st \<longrightarrow> (\<exists>st'. get_causes E st = (Inr C, st')))
   \<and> (console_output E job_name number = Some L \<and> causes_file E = Parsed C \<and> cache_ok E st
        \<and> (name, cd) \<in> set C \<and> cause_re cd = Some ps \<and> p \<in> set ps
        \<and> re_search E p L [DOTALL] = None \<longrightarrow>
       (\<exists>q st'. search_for_cause E job_name number st = (Inl (RegexError q), st')
          \<and> re_search E q L [DOTALL] = None))"
proof (intro conjI impI)
  assume a: "causes_file E = Parsed C \<and> cache_ok E st"
  then show "\<exists>st'. get_causes E st = (Inr C, st')"
    using get_causes_parsed[of E C st] by blast
next
  assume a: "console_output E job_name number = Some L \<and> causes_file E = Parsed C \<and> cache_ok E st
        \<and> (name, cd) \<in> set C \<and> cause_re cd = Some ps \<and> p \<in> set ps
        \<and> re_search E p L [DOTALL] = None"
  then have "\<not> (case (name, cd) of (name, cd) \<Rightarrow>
        case cause_re cd of None \<Rightarrow> True
        | Some ps \<Rightarrow> (\<forall>p \<in> set ps. re_search E p L [DOTALL] \<noteq> None))"
    by auto
  then have "\<not> patterns_ok E C L"
    unfolding patterns_ok_def using a by blast
  then have "\<not> (\<exists>fr'. search_causes E L C [] = Inr fr')"
    using search_causes_Inr_iff[of E L C "[]"] by simp
  then obtain e where e: "search_causes E L C [] = Inl e"
    by (cases "search_causes E L C []") auto
  from search_causes_error[OF e] obtain q where q: "e = RegexError q" "re_search E q L [DOTALL] = None"
    by blast
  from a search_for_cause_parsed[of E job_name number L C st]
  obtain st' where "search_for_cause E job_name number st =
      ((case search_causes E L C [] of Inl e \<Rightarrow> Inl e | Inr fr \<Rightarrow> Inr (remdups fr)), st')"
    by blast
  then have "search_for_cause E job_name number st = (Inl (RegexError q), st')"
    using e q by simp
  then show "\<exists>q st'. search_for_cause E job_name number st = (Inl (RegexError q), st')
          \<and> re_search E q L [DOTALL] = None"
    using q by blast
qed

theorem invalid_regex_loads_and_raises_in_search_witness:
  "(\<exists>st'. get_causes badre_env init_state = (Inr bad_causes, st'))
   \<and> (\<exists>q st'. search_for_cause badre_env ''job'' 2 init_state = (Inl (RegexError q), st')
         \<and> re_search badre_env q ''Killed'' [DOTALL] = None)"
proof -
  have c: "console_output badre_env ''job'' 2 = Some ''Killed''"
    by (simp add: badre_env_def mk_env_def)
  have f: "causes_file badre_env = Parsed bad_causes"
    by (simp add: badre_env_def mk_env_def)
  have m: "(''bad'', \<lparr>cause_re = Some [''(''], cause_text = None, bug_data = None\<rparr>) \<in> set bad_causes"
    by (simp add: bad_causes_def)
  have r: "re_search badre_env ''('' ''Killed'' [DOTALL] = None"
    by (simp add: badre_env_def mk_env_def fragment_re_search_def)
  from invalid_regex_loads_and_raises_in_search[where E = badre_env and C = bad_causes
      and st = init_state and job_name = "''job''" and number = 2 and L = "''Killed''"
      and name = "''bad''" and ps = "[''('']" and p = "''(''"
      and cd = "\<lparr>cause_re = Some [''(''], cause_text = None, bug_data = None\<rparr>"]
    c f m r cache_ok_init[of badre_env]
  show ?thesis by simp
qed

theorem invalid_regex_not_caught_at_load_counterexample:
  "get_causes badre_env init_state =
     (Inr bad_causes, \<lparr>trace = [OpenCausesFile], causes_cache = Some bad_causes\<rparr>)
   \<and> fragment_re_search ''('' ''Killed'' [DOTALL] = None
   \<and> search_for_cause badre_env ''job'' 2 init_state =
     (Inl (RegexError ''(''),
      \<lparr>trace = [GetConsoleOutput ''job'' 2, OpenCausesFile], causes_cache = Some bad_causes\<rparr>)"
  by code_simp

text \<open>
  C3, as the code has it. The exception of a failed fetch of build metadata is caught
  nowhere. When the walk reaches a number whose metadata the server does not have, the
  loop ends at once with that exception; so a run that starts above such a number, with
  every build in between inside the window, ends with an exception and without a report,
  and fetches no build below that number.
\<close>

theorem build_not_found_ends_the_run:
  assumes "job_info E job_name = Some (Some n0)"
    and "0 < hours_ago"
    and "T = now E - timedelta_hours hours_ago"
    and "n \<le> n0"
    and "build_infos E job_name n = None"
    and "\<forall>k bi. n < k \<and> k \<le> n0 \<and> build_infos E job_name k = Some bi \<longrightarrow>
           T < fromtimestamp_ms (timestamp bi)"
  shows "(\<forall>jt statuses st0. T < jt \<longrightarrow>
            walk E job_name T s n jt statuses st0 =
              Some (Inl (BuildNotFound job_name n), log_event (GetBuildInfo job_name n) st0))
         \<and> (\<exists>e st. display_builds_for_job E job_name hours_ago s init_state = Some (Inl e, st)
               \<and> (\<forall>k. k < n \<longrightarrow> k \<notin> set (build_fetches (trace st))))"
proof (intro conjI allI impI)
  fix jt statuses st0
  assume "T < jt"
  then show "walk E job_name T s n jt statuses st0 =
      Some (Inl (BuildNotFound job_name n), log_event (GetBuildInfo job_name n) st0)"
    by (simp add: walk_step loop_body_missing[OF assms(5)])
next
  have fail: "\<And>statuses0 st0. \<exists>e st1. loop_body E job_name T s n statuses0 st0 = (Inl e, st1)"
    by (simp add: loop_body_missing[OF assms(5)])
  have lt: "T < now E" unfolding assms(3) using assms(2) by (rule timedelta_pos)
  from walk_abort[OF fail lt assms(4) assms(6),
      where statuses = "[]" and st = "log_event (GetJobInfo job_name) init_state"]
  obtain e st' where w: "walk E job_name T s n0 (now E) []
        (log_event (GetJobInfo job_name) init_state) = Some (Inl e, st')"
    and k: "\<forall>k. k < n \<longrightarrow> k \<in> set (build_fetches (trace st')) \<longrightarrow>
        k \<in> set (build_fetches (trace (log_event (GetJobInfo job_name) init_state)))"
    by blast
  have "display_builds_for_job E job_name hours_ago s init_state = Some (Inl e, st')"
    using display_aborts[OF assms(1)] w unfolding assms(3) by blast
  moreover have "\<forall>k. k < n \<longrightarrow> k \<notin> set (build_fetches (trace st'))"
    using k by (auto simp: log_event_def init_state_def)
  ultimately show "\<exists>e st. display_builds_for_job E job_name hours_ago s init_state = Some (Inl e, st)
               \<and> (\<forall>k. k < n \<longrightarrow> k \<notin> set (build_fetches (trace st)))"
    by blast
qed

theorem build_not_found_ends_the_run_witness:
  "build_infos pruned_env ''job'' 2 = None
   \<and> (\<exists>e st. display_builds_for_job pruned_env ''job'' 24 True init_state = Some (Inl e, st)
         \<and> 1 \<notin> set (build_fetches (trace st)))"
proof -
  have h1: "job_info pruned_env ''job'' = Some (Some 3)"
    by (simp add: pruned_env_def mk_env_def)
  have h5: "build_infos pruned_env ''job'' 2 = None"
    by (simp add: pruned_env_def mk_env_def)
  have h6: "\<forall>k bi. 2 < k \<and> k \<le> 3 \<and> build_infos pruned_env ''job'' k = Some bi \<longrightarrow>
      now pruned_env - timedelta_hours 24 < fromtimestamp_ms (timestamp bi)"
  proof (intro allI impI)
    fix k :: int and bi
    assume a: "2 < k \<and> k \<le> 3 \<and> build_infos pruned_env ''job'' k = Some bi"
    then have k3: "k = 3" by simp
    have "build_infos pruned_env ''job'' 3 = Some bi" using a unfolding k3 by simp
    then have "bi = mk_build 99 ''SUCCESS''" by (simp add: pruned_env_def mk_env_def)
    then show "now pruned_env - timedelta_hours 24 < fromtimestamp_ms (timestamp bi)"
      by (simp add: mk_build_time pruned_env_def mk_env_now) (simp add: timedelta_hours_def)
  qed
  from build_not_found_ends_the_run[OF h1 _ refl _ h5 h6, where s = True]
  have "\<exists>e st. display_builds_for_job pruned_env ''job'' 24 True init_state = Some (Inl e, st)
         \<and> (\<forall>k. k < 2 \<longrightarrow> k \<notin> set (build_fetches (trace st)))"
    by simp
  then have "\<exists>e st. display_builds_for_job pruned_env ''job'' 24 True init_state = Some (Inl e, st)
         \<and> 1 \<notin> set (build_fetches (trace st))"
    by force
  then show ?thesis using h5 by simp
qed

theorem build_not_found_skipped_counterexample:
  "display_builds_for_job pruned_env ''job'' 24 True init_state =
     Some (Inl (BuildNotFound ''job'' 2),
           \<lparr>trace = [GetJobInfo ''job'', GetBuildInfo ''job'' 3, GetBuildInfo ''job'' 2],
            causes_cache = None\<rparr>)
   \<and> build_time pruned_env ''job'' 1 = Some (timedelta_hours 98)
   \<and> now pruned_env - timedelta_hours 24 = timedelta_hours 76"
  by code_simp

text \<open>
  C9, as the code has it. The exception of a failed fetch of a console log is caught
  nowhere. For a build inside the window whose result is not SUCCESS and whose console
  log cannot be fetched, the body of the loop ends with that exception; so a run that
  reaches such a build ends with an exception and without a report, and fetches no build
  below it.
\<close>

theorem log_fetch_error_ends_the_run:
  assumes "job_info E job_name = Some (Some n0)"
    and "0 < hours_ago"
    and "T = now E - timedelta_hours hours_ago"
    and "n \<le> n0"
    and "build_infos E job_name n = Some bi"
    and "T \<le> fromtimestamp_ms (timestamp bi)"
    and "result bi \<noteq> ''SUCCESS''"
    and "console_output E job_name n = None"
    and "\<forall>k bi. n < k \<and> k \<le> n0 \<and> build_infos E job_name k = Some bi \<longrightarrow>
           T < fromtimestamp_ms (timestamp bi)"
  shows "(\<forall>statuses st0. loop_body E job_name T s n statuses st0 =
            (Inl (LogFetchError job_name n),
             log_event (GetConsoleOutput job_name n) (log_event (GetBuildInfo job_name n) st0)))
         \<and> (\<exists>e st. display_builds_for_job E job_name hours_ago s init_state = Some (Inl e, st)
               \<and> (\<forall>k. k < n \<longrightarrow> k \<notin> set (build_fetches (trace st))))"
proof (intro conjI allI)
  fix statuses st0
  show "loop_body E job_name T s n statuses st0 =
            (Inl (LogFetchError job_name n),
             log_event (GetConsoleOutput job_name n) (log_event (GetBuildInfo job_name n) st0))"
    by (rule loop_body_nolog[OF assms(5-8)])
next
  have fail: "\<And>statuses0 st0. \<exists>e st1. loop_body E job_name T s n statuses0 st0 = (Inl e, st1)"
    by (simp add: loop_body_nolog[OF assms(5-8)])
  have lt: "T < now E" unfolding assms(3) using assms(2) by (rule timedelta_pos)
  from walk_abort[OF fail lt assms(4) assms(9),
      where statuses = "[]" and st = "log_event (GetJobInfo job_name) init_state"]
  obtain e st' where w: "walk E job_name T s n0 (now E) []
        (log_event (GetJobInfo job_name) init_state) = Some (Inl e, st')"
    and k: "\<forall>k. k < n \<longrightarrow> k \<in> set (build_fetches (trace st')) \<longrightarrow>
        k \<in> set (build_fetches (trace (log_event (GetJobInfo job_name) init_state)))"
    by blast
  have "display_builds_for_job E job_name hours_ago s init_state = Some (Inl e, st')"
    using display_aborts[OF assms(1)] w unfolding assms(3) by blast
  moreover have "\<forall>k. k < n \<longrightarrow> k \<notin> set (build_fetches (trace st'))"
    using k by (auto simp: log_event_def init_state_def)
  ultimately show "\<exists>e st. display_builds_for_job E job_name hours_ago s init_state = Some (Inl e, st)
               \<and> (\<forall>k. k < n \<longrightarrow> k \<notin> set (build_fetches (trace st)))"
    by blast
qed

theorem log_fetch_error_ends_the_run_witness:
  "console_output nolog_env ''job'' 2 = None
   \<and> (\<exists>e st. display_builds_for_job nolog_env ''job'' 24 True init_state = Some (Inl e, st))"
proof -
  have h1: "job_info nolog_env ''job'' = Some (Some 2)"
    by (simp add: nolog_env_def mk_env_def)
  have h5: "build_infos nolog_env ''job'' 2 = Some (mk_build 99 ''FAILURE'')"
    by (simp add: nolog_env_def mk_env_def)
  have h6: "now nolog_env - timedelta_hours 24
      \<le> fromtimestamp_ms (timestamp (mk_build 99 ''FAILURE''))"
    by (simp add: mk_build_time nolog_env_def mk_env_now) (simp add: timedelta_hours_def)
  have h7: "result (mk_build 99 ''FAILURE'') \<noteq> ''SUCCESS''" by (simp add: mk_build_def)
  have h8: "console_output nolog_env ''job'' 2 = None"
    by (simp add: nolog_env_def mk_env_def)
  have h9: "\<forall>k bi. 2 < k \<and> k \<le> 2 \<and> build_infos nolog_env ''job'' k = Some bi \<longrightarrow>
      now nolog_env - timedelta_hours 24 < fromtimestamp_ms (timestamp bi)"
    by simp
  from log_fetch_error_ends_the_run[OF h1 _ refl _ h5 h6 h7 h8 h9, where s = True]
  have "\<exists>e st. display_builds_for_job nolog_env ''job'' 24 True init_state = Some (Inl e, st)"
    by auto
  then show ?thesis using h8 by simp
qed

theorem log_fetch_error_reported_counterexample:
  "display_builds_for_job nolog_env ''job'' 24 True init_state =
     Some (Inl (LogFetchError ''job'' 2),
           \<lparr>trace = [GetJobInfo ''job'', GetBuildInfo ''job'' 2, GetConsoleOutput ''job'' 2],
            causes_cache = None\<rparr>)
   \<and> build_infos nolog_env ''job'' 2 = Some (mk_build 99 ''FAILURE'')
   \<and> console_output nolog_env ''job'' 2 = None"
  by code_simp

text \<open>
  C7. causes.yaml is read by \<open>get_causes\<close> at its first call, and nothing calls it before
  the remote calls: \<open>search_for_cause\<close> calls it after it has fetched a console log, and
  \<open>display_build_summary\<close> calls it after the loop. When the file is missing or does not
  parse, no run prints a report. Every run that ends has asked the server for the job first
  and, when the job has a completed build and the window is not empty, for the metadata of
  that build. The file is opened at most once, as the last thing the run does, and the run
  ends with the exception of \<open>open\<close> or of \<open>yaml.safe_load\<close> exactly when it has opened the
  file. A job without a completed build returns without opening the file. When the last
  completed build is inside the window, not successful, and its console log can be fetched,
  the run ends with that exception after three remote calls: for the job, for the metadata
  of the build and for its console log.
\<close>

theorem causes_file_opened_after_the_fetches:
  assumes bad: "causes_file E = Missing \<or> causes_file E = Unparsable"
  shows
  "(\<forall>r st. display_builds_for_job E job h s init_state = Some (r, st) \<longrightarrow>
      (\<forall>rows. r \<noteq> Inr (Some rows))
      \<and> (\<exists>evs. trace st = GetJobInfo job # evs
           \<and> (OpenCausesFile \<in> set evs \<longrightarrow>
                (\<exists>evs'. evs = evs' @ [OpenCausesFile] \<and> OpenCausesFile \<notin> set evs')))
      \<and> (r = Inl (load_error E)) = (OpenCausesFile \<in> set (trace st))
      \<and> (\<forall>n0. job_info E job = Some (Some n0) \<and> 0 < h \<longrightarrow>
            (\<exists>evs. trace st = GetJobInfo job # GetBuildInfo job n0 # evs)))
   \<and> (job_info E job = Some None \<longrightarrow>
        display_builds_for_job E job h s init_state
          = Some (Inr None, \<lparr>trace = [GetJobInfo job], causes_cache = None\<rparr>))
   \<and> (\<forall>n0 b out. job_info E job = Some (Some n0) \<and> 0 < h \<and> build_infos E job n0 = Some b
         \<and> now E - timedelta_hours h \<le> fromtimestamp_ms (timestamp b)
         \<and> result b \<noteq> ''SUCCESS'' \<and> console_output E job n0 = Some out \<longrightarrow>
        display_builds_for_job E job h s init_state
          = Some (Inl (load_error E),
                  \<lparr>trace = [GetJobInfo job, GetBuildInfo job n0, GetConsoleOutput job n0,
                            OpenCausesFile],
                   causes_cache = None\<rparr>))"
proof (intro conjI)
  show "\<forall>r st. display_builds_for_job E job h s init_state = Some (r, st) \<longrightarrow>
      (\<forall>rows. r \<noteq> Inr (Some rows))
      \<and> (\<exists>evs. trace st = GetJobInfo job # evs
           \<and> (OpenCausesFile \<in> set evs \<longrightarrow>
                (\<exists>evs'. evs = evs' @ [OpenCausesFile] \<and> OpenCausesFile \<notin> set evs')))
      \<and> (r = Inl (load_error E)) = (OpenCausesFile \<in> set (trace st))
      \<and> (\<forall>n0. job_info E job = Some (Some n0) \<and> 0 < h \<longrightarrow>
            (\<exists>evs. trace st = GetJobInfo job # GetBuildInfo job n0 # evs))"
    using display_bad_general[OF bad] by blast
next
  show "job_info E job = Some None \<longrightarrow>
        display_builds_for_job E job h s init_state
          = Some (Inr None, \<lparr>trace = [GetJobInfo job], causes_cache = None\<rparr>)"
    by (simp add: display_builds_for_job_def Let_def log_event_def init_state_def)
next
  show "\<forall>n0 b out. job_info E job = Some (Some n0) \<and> 0 < h \<and> build_infos E job n0 = Some b
         \<and> now E - timedelta_hours h \<le> fromtimestamp_ms (timestamp b)
         \<and> result b \<noteq> ''SUCCESS'' \<and> console_output E job n0 = Some out \<longrightarrow>
        display_builds_for_job E job h s init_state
          = Some (Inl (load_error E),
                  \<lparr>trace = [GetJobInfo job, GetBuildInfo job n0, GetConsoleOutput job n0,
                            OpenCausesFile],
                   causes_cache = None\<rparr>)"
    using display_bad_first_build[OF bad] by blast
qed

theorem causes_file_opened_after_the_fetches_witness:
  "causes_file nofile_env = Missing
   \<and> display_builds_for_job nofile_env ''job'' 24 True init_state
       = Some (Inl FileNotFoundError,
               \<lparr>trace = [GetJobInfo ''job'', GetBuildInfo ''job'' 2, GetConsoleOutput ''job'' 2,
                         OpenCausesFile],
                causes_cache = None\<rparr>)"
proof -
  have bad: "causes_file nofile_env = Missing \<or> causes_file nofile_env = Unparsable"
    by (simp add: nofile_env_def mk_env_def)
  have m: "causes_file nofile_env = Missing" by (simp add: nofile_env_def mk_env_def)
  have j: "job_info nofile_env ''job'' = Some (Some 2)"
    by (simp add: nofile_env_def mk_env_def)
  have b: "build_infos nofile_env ''job'' 2 = Some (mk_build 99 ''FAILURE'')"
    by (simp add: nofile_env_def mk_env_def)
  have inw: "now nofile_env - timedelta_hours 24
      \<le> fromtimestamp_ms (timestamp (mk_build 99 ''FAILURE''))"
    by (simp add: mk_build_time nofile_env_def mk_env_now) (simp add: timedelta_hours_def)
  have ns: "result (mk_build 99 ''FAILURE'') \<noteq> ''SUCCESS''" by (simp add: mk_build_def)
  have out: "console_output nofile_env ''job'' 2 = Some ''Killed''"
    by (simp add: nofile_env_def mk_env_def)
  have le: "load_error nofile_env = FileNotFoundError" by (simp add: load_error_def m)
  have pos: "(0::int) < 24" by simp
  from causes_file_opened_after_the_fetches[OF bad, where job = "''job''" and h = 24
      and s = True]
  have "job_info nofile_env ''job'' = Some (Some 2) \<and> (0::int) < 24
         \<and> build_infos nofile_env ''job'' 2 = Some (mk_build 99 ''FAILURE'')
         \<and> now nofile_env - timedelta_hours 24
             \<le> fromtimestamp_ms (timestamp (mk_build 99 ''FAILURE''))
         \<and> result (mk_build 99 ''FAILURE'') \<noteq> ''SUCCESS''
         \<and> console_output nofile_env ''job'' 2 = Some ''Killed'' \<longrightarrow>
      display_builds_for_job nofile_env ''job'' 24 True init_state
       = Some (Inl (load_error nofile_env),
               \<lparr>trace = [GetJobInfo ''job'', GetBuildInfo ''job'' 2, GetConsoleOutput ''job'' 2,
                         OpenCausesFile],
                causes_cache = None\<rparr>)"
    by blast
  with j pos b inw ns out
  have "display_builds_for_job nofile_env ''job'' 24 True init_state
       = Some (Inl (load_error nofile_env),
               \<lparr>trace = [GetJobInfo ''job'', GetBuildInfo ''job'' 2, GetConsoleOutput ''job'' 2,
                         OpenCausesFile],
                causes_cache = None\<rparr>)"
    by blast
  then show ?thesis using m le by simp
qed

theorem causes_file_checked_before_fetches_counterexample:
  "causes_file nofile_env = Missing
   \<and> (\<exists>e st. display_builds_for_job nofile_env ''job'' 24 True init_state = Some (Inl e, st)
        \<and> build_fetches (trace st) = [2]
        \<and> GetConsoleOutput ''job'' 2 \<in> set (trace st)
        \<and> trace st = [GetJobInfo ''job'', GetBuildInfo ''job'' 2, GetConsoleOutput ''job'' 2,
                       OpenCausesFile])"
proof -
  have "display_builds_for_job nofile_env ''job'' 24 True init_state
       = Some (Inl FileNotFoundError,
               \<lparr>trace = [GetJobInfo ''job'', GetBuildInfo ''job'' 2, GetConsoleOutput ''job'' 2,
                         OpenCausesFile],
                causes_cache = None\<rparr>)"
    by code_simp
  moreover have "causes_file nofile_env = Missing" by (simp add: nofile_env_def mk_env_def)
  ultimately show ?thesis by simp
qed




end
